(* ===== verification/Prelude.thy ===== *)
theory Prelude
  imports Main "HOL-Library.Word"
begin

unbundle bit_operations_syntax

text \<open>
  Shared vocabulary of the development: the machine integers and byte strings of the Rust
  sources, the program's error values with Rust's \<open>?\<close> operator, big-endian integer
  encodings, slices, and the lemma collections the component theories use.

  \<^item> \<open>bytes\<close> renders \<open>Vec<u8>\<close>, \<open>&[u8]\<close>, \<open>[u8; N]\<close> and \<open>BytesMut\<close>; a fixed-size array is a
    list whose length is stated where a property needs it.
  \<^item> \<open>rstring\<close> renders \<open>String\<close> and \<open>&str\<close> as their UTF-8 code units, so that \<open>s.len()\<close> is
    the list length and \<open>s.as_bytes()\<close> a map.
  \<^item> \<open>'a result\<close> renders \<open>anyhow::Result<T>\<close>; an \<open>error\<close> carries the message the sources raise.
\<close>

named_theorems wire_simps \<open>equations of the wire-format helpers\<close>
named_theorems wire_len \<open>lengths of encoded values\<close>

type_synonym u8 = "8 word"
type_synonym u16 = "16 word"
type_synonym u32 = "32 word"
type_synonym u64 = "64 word"
type_synonym u128 = "128 word"
type_synonym bytes = "8 word list"
type_synonym rstring = string

section \<open>Errors as values\<close>

text \<open>\<open>bail!("msg")\<close> and \<open>anyhow!("msg")\<close> carry the message text (its formatted arguments, where
  it has any, as numbers); \<open>Panic\<close> is a Rust panic (\<open>expect\<close>, an index or a copy out of range);
  \<open>Diverge\<close> is a call that does not return (a loop of the source that is a partial function here).\<close>

datatype error = Bail rstring "nat list" | Panic rstring | Diverge

type_synonym 'a result = "error + 'a"

abbreviation Ok :: "'a \<Rightarrow> 'a result" where
  "Ok \<equiv> Inr"

abbreviation Err :: "error \<Rightarrow> 'a result" where
  "Err \<equiv> Inl"

abbreviation bail :: "rstring \<Rightarrow> 'a result" where
  "bail msg \<equiv> Inl (Bail msg [])"

text \<open>Rust's \<open>?\<close>: an error returns early, a value flows into the rest.\<close>

definition and_then :: "'a result \<Rightarrow> ('a \<Rightarrow> 'b result) \<Rightarrow> 'b result" where
  "and_then r f = (case r of Inl e \<Rightarrow> Inl e | Inr x \<Rightarrow> f x)"

lemma and_then_simps [simp]:
  "and_then (Inl e) f = Inl e"
  "and_then (Inr x) f = f x"
  by (simp_all add: and_then_def)

lemma and_then_eq_Ok:
  "and_then r f = Inr y \<longleftrightarrow> (\<exists>x. r = Inr x \<and> f x = Inr y)"
  by (cases r) simp_all

lemma and_then_if [simp]:
  "and_then (if b then r else r') f = (if b then and_then r f else and_then r' f)"
  by simp

text \<open>The result of a loop modelled as a partial function.\<close>

definition returned :: "'a option \<Rightarrow> 'a result" where
  "returned x = (case x of None \<Rightarrow> Inl Diverge | Some v \<Rightarrow> Inr v)"

lemma returned_simps [simp]: "returned (Some v) = Inr v" "returned None = Inl Diverge"
  by (simp_all add: returned_def)

text \<open>\<open>Option::ok_or_else(..)?\<close>.\<close>

definition ok_or :: "'a option \<Rightarrow> error \<Rightarrow> 'a result" where
  "ok_or x e = (case x of None \<Rightarrow> Inl e | Some v \<Rightarrow> Inr v)"

lemma ok_or_simps [simp]:
  "ok_or None e = Inl e"
  "ok_or (Some v) e = Inr v"
  by (simp_all add: ok_or_def)

lemma ok_or_eq_Ok: "ok_or x e = Inr v \<longleftrightarrow> x = Some v"
  by (cases x) simp_all

section \<open>Slices\<close>

text \<open>\<open>&xs[a..b]\<close>; the sources index only ranges they have checked or that the array type
  guarantees.\<close>

definition subslice :: "'a list \<Rightarrow> nat \<Rightarrow> nat \<Rightarrow> 'a list" where
  "subslice xs a b = take (b - a) (drop a xs)"

lemma length_subslice [simp]: "length (subslice xs a b) = min (length xs - a) (b - a)"
  by (simp add: subslice_def)

lemma subslice_append_left: "b \<le> length xs \<Longrightarrow> subslice (xs @ ys) a b = subslice xs a b"
  by (simp add: subslice_def)

lemma subslice_append_right:
  "length xs \<le> a \<Longrightarrow> subslice (xs @ ys) a b = subslice ys (a - length xs) (b - length xs)"
  by (simp add: subslice_def)

lemma subslice_full: "b = length xs \<Longrightarrow> subslice xs 0 b = xs"
  by (simp add: subslice_def)

lemma subslice_drop:
  assumes "a \<le> b"
  shows "subslice xs a b @ drop b xs = drop a xs"
proof -
  have "drop b xs = drop (b - a) (drop a xs)" using assms by simp
  then show ?thesis by (simp only: subslice_def append_take_drop_id)
qed

lemma subslice_split:
  assumes "a \<le> b" "b \<le> c"
  shows "subslice xs a b @ subslice xs b c = subslice xs a c"
proof -
  have "take (b - a + (c - b)) (drop a xs) = subslice xs a b @ subslice xs b c"
    using assms by (simp only: take_add subslice_def drop_drop le_add_diff_inverse2)
  moreover have "b - a + (c - b) = c - a" using assms by simp
  ultimately show ?thesis by (simp add: subslice_def)
qed

text \<open>\<open>iter().position(p)\<close>.\<close>

fun position :: "('a \<Rightarrow> bool) \<Rightarrow> 'a list \<Rightarrow> nat option" where
  "position p [] = None"
| "position p (x # xs) = (if p x then Some 0 else map_option Suc (position p xs))"

lemma position_Some:
  "position p xs = Some i \<Longrightarrow> i < length xs \<and> p (xs ! i) \<and> (\<forall>j < i. \<not> p (xs ! j))"
proof (induction xs arbitrary: i)
  case Nil
  then show ?case by simp
next
  case (Cons x xs)
  then show ?case by (auto simp: nth_Cons split: if_splits nat.splits)
qed

lemma position_append: "position p xs = Some i \<Longrightarrow> position p (xs @ ys) = Some i"
  by (induction xs arbitrary: i) (auto split: if_splits)

lemma position_first: "list_all (\<lambda>x. \<not> p x) xs \<Longrightarrow> p y \<Longrightarrow> position p (xs @ y # ys) = Some (length xs)"
  by (induction xs) simp_all

text \<open>\<open>xs.chunks(k)\<close>; Rust panics for \<open>k = 0\<close>, which no caller passes.\<close>

function chunks :: "nat \<Rightarrow> 'a list \<Rightarrow> 'a list list" where
  "chunks k xs = (if xs = [] \<or> k = 0 then [] else take k xs # chunks k (drop k xs))"
  by pat_completeness auto
termination
  by (relation "measure (\<lambda>(k, xs). length xs)") auto

declare chunks.simps [simp del]

lemma chunks_Nil [simp]: "chunks k [] = []"
  by (simp add: chunks.simps)

lemma chunks_step: "xs \<noteq> [] \<Longrightarrow> 0 < k \<Longrightarrow> chunks k xs = take k xs # chunks k (drop k xs)"
  by (subst chunks.simps) simp

lemma concat_chunks: "0 < k \<Longrightarrow> concat (chunks k xs) = xs"
proof (induction k xs rule: chunks.induct)
  case (1 k xs)
  then show ?case by (cases "xs = []") (simp_all add: chunks_step)
qed

lemma chunks_bound: "c \<in> set (chunks k xs) \<Longrightarrow> c \<noteq> [] \<and> length c \<le> k"
proof (induction k xs rule: chunks.induct)
  case (1 k xs)
  show ?case
  proof (cases "xs = [] \<or> k = 0")
    case True
    with "1.prems" show ?thesis by (auto simp: chunks.simps [of k xs])
  next
    case False
    with 1 show ?thesis by (auto simp: chunks_step)
  qed
qed

section \<open>Big-endian integers\<close>

fun be_bytes :: "nat \<Rightarrow> nat \<Rightarrow> bytes" where
  "be_bytes 0 n = []"
| "be_bytes (Suc k) n = be_bytes k (n div 256) @ [word_of_nat n]"

fun be_nat_acc :: "nat \<Rightarrow> bytes \<Rightarrow> nat" where
  "be_nat_acc a [] = a"
| "be_nat_acc a (b # bs) = be_nat_acc (a * 256 + unat b) bs"

abbreviation be_nat :: "bytes \<Rightarrow> nat" where
  "be_nat \<equiv> be_nat_acc 0"

text \<open>\<open>w.to_be_bytes()\<close> and \<open>uN::from_be_bytes(bs)\<close>, at every width.\<close>

definition to_be_bytes :: "'a::len word \<Rightarrow> bytes" where
  "to_be_bytes w = be_bytes (LENGTH('a) div 8) (unat w)"

definition from_be_bytes :: "bytes \<Rightarrow> 'a::len word" where
  "from_be_bytes bs = word_of_nat (be_nat bs)"

lemma be_bytes_numeral [simp]:
  "be_bytes (numeral k) n = be_bytes (pred_numeral k) (n div 256) @ [word_of_nat n]"
  by (simp only: numeral_eq_Suc [of k] be_bytes.simps)

lemma length_be_bytes [simp]: "length (be_bytes k n) = k"
  by (induction k arbitrary: n) simp_all

lemma be_nat_acc_append: "be_nat_acc a (xs @ ys) = be_nat_acc (be_nat_acc a xs) ys"
  by (induction xs arbitrary: a) simp_all

lemma be_nat_snoc: "be_nat (xs @ [b]) = be_nat xs * 256 + unat b"
  by (simp add: be_nat_acc_append)

lemma be_nat_be_bytes: "be_nat (be_bytes k n) = n mod 256 ^ k"
proof (induction k arbitrary: n)
  case 0
  then show ?case by simp
next
  case (Suc k)
  have "be_nat (be_bytes (Suc k) n) = (n div 256) mod 256 ^ k * 256 + n mod 256"
    by (simp add: be_nat_snoc Suc unat_of_nat)
  also have "\<dots> = n mod 256 ^ Suc k"
    by (simp only: power_Suc mod_mult2_eq mult.commute [of _ 256])
  finally show ?case .
qed

lemma be_nat_less: "be_nat bs < 256 ^ length bs"
proof (induction bs rule: rev_induct)
  case Nil
  then show ?case by simp
next
  case (snoc b bs)
  have "unat b < 256" using unsigned_less [of b] by simp
  moreover from snoc have "Suc (be_nat bs) \<le> 256 ^ length bs" by simp
  then have "Suc (be_nat bs) * 256 \<le> 256 ^ length bs * 256" by (rule mult_le_mono1)
  ultimately show ?case unfolding be_nat_snoc by simp
qed

lemma be_bytes_be_nat: "be_bytes (length bs) (be_nat bs) = bs"
proof (induction bs rule: rev_induct)
  case Nil
  then show ?case by simp
next
  case (snoc b bs)
  have b: "unat b < 256" using unsigned_less [of b] by simp
  then have "(be_nat bs * 256 + unat b) div 256 = be_nat bs" by simp
  moreover have "unat (word_of_nat (be_nat bs * 256 + unat b) :: u8) = unat b"
    unfolding unat_of_nat using b by simp
  then have "(word_of_nat (be_nat bs * 256 + unat b) :: u8) = b"
    by (simp only: word_unat_eq_iff)
  ultimately show ?case using snoc unfolding be_nat_snoc by simp
qed

text \<open>The two conversions are inverse at every whole number of octets.\<close>

lemma length_to_be_bytes [simp, wire_len]: "length (to_be_bytes (w :: 'a::len word)) = LENGTH('a) div 8"
  by (simp add: to_be_bytes_def)

lemma from_to_be_bytes:
  assumes "8 dvd LENGTH('a)"
  shows "from_be_bytes (to_be_bytes (w :: 'a::len word)) = w"
proof -
  have "256 ^ (LENGTH('a) div 8) = (2::nat) ^ LENGTH('a)"
    using assms power_mult [of "2::nat" 8 "LENGTH('a) div 8"] by simp
  then show ?thesis
    using unsigned_less [of w]
    by (simp add: from_be_bytes_def to_be_bytes_def be_nat_be_bytes)
qed

lemma to_from_be_bytes:
  assumes "8 * length bs = LENGTH('a)"
  shows "to_be_bytes (from_be_bytes bs :: 'a::len word) = bs"
proof -
  have "256 ^ length bs = (2::nat) ^ LENGTH('a)"
    using assms power_mult [of "2::nat" 8 "length bs"] by simp
  then have "unat (word_of_nat (be_nat bs) :: 'a word) = be_nat bs"
    using be_nat_less [of bs] by (simp add: unat_of_nat)
  moreover have "LENGTH('a) div 8 = length bs" using assms by simp
  ultimately show ?thesis
    by (simp add: from_be_bytes_def to_be_bytes_def be_bytes_be_nat)
qed

lemmas from_to_be = from_to_be_bytes [where 'a = 16, simplified] from_to_be_bytes [where 'a = 32, simplified]
  from_to_be_bytes [where 'a = 64, simplified] from_to_be_bytes [where 'a = 128, simplified]

lemmas to_from_be = to_from_be_bytes [where 'a = 16, simplified] to_from_be_bytes [where 'a = 32, simplified]
  to_from_be_bytes [where 'a = 64, simplified] to_from_be_bytes [where 'a = 128, simplified]

lemma to_be_bytes_inject:
  "8 dvd LENGTH('a) \<Longrightarrow> to_be_bytes (v :: 'a::len word) = to_be_bytes w \<longleftrightarrow> v = w"
  by (metis from_to_be_bytes)

end
