(* ===== verification/Replay.thy ===== *)
theory Replay
  imports Prelude
begin

text \<open>
  The sliding replay window of \<open>src/src/replay.rs\<close>, used for inbound data packets (one window
  per key slot) and for the control-channel envelope ids (one per session).

  \<open>check_and_set\<close> is the code's bitmap algorithm on a 64-bit word. \<open>replay_accepts\<close> is what it
  promises, over the whole set of ids accepted so far: an id passes when it is not the reserved
  0, was never accepted and is less than 64 behind the highest accepted id. The interface
  \<open>replay_filter\<close> states that promise once for any window, and its clients' facts (no id passes
  twice, the verdicts equal the specification's) are proved inside it.
\<close>

record ReplayWindow =
  highest :: u32
  bitmap :: u64

definition WINDOW_SIZE :: u32 where
  "WINDOW_SIZE = 64"

definition ReplayWindow_new :: ReplayWindow where
  "ReplayWindow_new = \<lparr>highest = 0, bitmap = 0\<rparr>"

definition check_and_set :: "ReplayWindow \<Rightarrow> u32 \<Rightarrow> bool \<times> ReplayWindow" where
  "check_and_set self packet_id =
     (if packet_id = 0 then (False, self)
      else if packet_id > highest self then
        let shift = packet_id - highest self;
            bm = (if shift \<ge> 64 then 1 else push_bit (unat shift) (bitmap self) OR 1)
        in (True, self\<lparr>bitmap := bm, highest := packet_id\<rparr>)
      else
        let diff = highest self - packet_id
        in if diff \<ge> WINDOW_SIZE then (False, self)
           else let bit_mask = push_bit (unat diff) 1
                in if bitmap self AND bit_mask \<noteq> 0 then (False, self)
                   else (True, self\<lparr>bitmap := bitmap self OR bit_mask\<rparr>))"

section \<open>The promise of a replay window\<close>

definition replay_accepts :: "nat set \<Rightarrow> u32 \<Rightarrow> bool" where
  "replay_accepts seen pid \<longleftrightarrow>
     pid \<noteq> 0 \<and> unat pid \<notin> seen \<and> (\<forall>h \<in> seen. h < unat pid + 64)"

fun replay_spec_run :: "nat set \<Rightarrow> u32 list \<Rightarrow> bool list" where
  "replay_spec_run seen [] = []"
| "replay_spec_run seen (p # ps) =
     (if replay_accepts seen p then True # replay_spec_run (insert (unat p) seen) ps
      else False # replay_spec_run seen ps)"

text \<open>The verdicts of a window over a sequence of ids, and the ids it lets through.\<close>

fun verdicts :: "('w \<Rightarrow> u32 \<Rightarrow> bool \<times> 'w) \<Rightarrow> 'w \<Rightarrow> u32 list \<Rightarrow> bool list" where
  "verdicts check w [] = []"
| "verdicts check w (p # ps) = (let (b, w') = check w p in b # verdicts check w' ps)"

fun passed :: "('w \<Rightarrow> u32 \<Rightarrow> bool \<times> 'w) \<Rightarrow> 'w \<Rightarrow> u32 list \<Rightarrow> u32 list" where
  "passed check w [] = []"
| "passed check w (p # ps) =
     (let (b, w') = check w p in if b then p # passed check w' ps else passed check w' ps)"

locale replay_filter =
  fixes init :: 'w
    and check :: "'w \<Rightarrow> u32 \<Rightarrow> bool \<times> 'w"
    and sim :: "'w \<Rightarrow> nat set \<Rightarrow> bool"
  assumes sim_init: "sim init {}"
    and check_verdict: "sim w seen \<Longrightarrow> fst (check w p) = replay_accepts seen p"
    and check_sim: "sim w seen \<Longrightarrow>
          sim (snd (check w p)) (if replay_accepts seen p then insert (unat p) seen else seen)"
begin

lemma verdicts_sim: "sim w seen \<Longrightarrow> verdicts check w ps = replay_spec_run seen ps"
proof (induction ps arbitrary: w seen)
  case Nil
  then show ?case by simp
next
  case (Cons p ps)
  from check_verdict [OF Cons.prems, of p] check_sim [OF Cons.prems, of p]
  show ?case by (auto simp: case_prod_beta Let_def Cons.IH)
qed

lemma verdicts_init: "verdicts check init ps = replay_spec_run {} ps"
  by (rule verdicts_sim [OF sim_init])

lemma passed_fresh: "sim w seen \<Longrightarrow> distinct (passed check w ps) \<and> unat ` set (passed check w ps) \<inter> seen = {}"
proof (induction ps arbitrary: w seen)
  case Nil
  then show ?case by simp
next
  case (Cons p ps)
  note v = check_verdict [OF Cons.prems, of p] and s = check_sim [OF Cons.prems, of p]
  show ?case
  proof (cases "replay_accepts seen p")
    case True
    with s have "sim (snd (check w p)) (insert (unat p) seen)" by simp
    from Cons.IH [OF this] True v show ?thesis
      by (auto simp: case_prod_beta Let_def replay_accepts_def)
  next
    case False
    with s Cons.IH [of "snd (check w p)" seen] v show ?thesis
      by (simp add: case_prod_beta Let_def)
  qed
qed

lemma passed_distinct: "distinct (passed check init ps)"
  using passed_fresh [OF sim_init] by blast

lemma newer_passes:
  "sim w seen \<Longrightarrow> p \<noteq> 0 \<Longrightarrow> \<forall>h \<in> seen. h < unat p \<Longrightarrow> fst (check w p)"
  by (auto simp: check_verdict replay_accepts_def)

end

section \<open>The bitmap implements it\<close>

text \<open>Bit \<open>i\<close> of the map says whether \<open>highest - i\<close> was accepted.\<close>

definition window_sim :: "ReplayWindow \<Rightarrow> nat set \<Rightarrow> bool" where
  "window_sim w seen \<longleftrightarrow>
     (\<forall>s \<in> seen. 0 < s \<and> s \<le> unat (highest w)) \<and>
     (highest w \<noteq> 0 \<longrightarrow> unat (highest w) \<in> seen) \<and>
     (\<forall>i < 64. bit (bitmap w) i \<longleftrightarrow> i < unat (highest w) \<and> unat (highest w) - i \<in> seen)"

lemma window_sim_new: "window_sim ReplayWindow_new {}"
  by (simp add: window_sim_def ReplayWindow_new_def)

lemma unat_diff: "(a :: u32) \<le> b \<Longrightarrow> unat (b - a) = unat b - unat a"
  by (rule unat_sub)

lemma test_bit_mask: "n < 64 \<Longrightarrow> ((w :: u64) AND push_bit n 1 \<noteq> 0) = bit w n"
proof -
  assume n: "n < 64"
  have "bit (w AND push_bit n 1) i \<longleftrightarrow> i = n \<and> bit w n" if "i < 64" for i
    using n that by (auto simp: bit_simps)
  then show ?thesis using n by (auto simp: bit_eq_iff bit_simps)
qed

lemma new_highest_verdict:
  "window_sim w seen \<Longrightarrow> highest w < p \<Longrightarrow> replay_accepts seen p"
  by (fastforce simp: window_sim_def replay_accepts_def word_less_nat_alt word_gt_0)

lemma shifted_bitmap:
  assumes "window_sim w seen" "highest w < p" "i < 64" "unat (p - highest w) < 64"
  shows "bit (push_bit (unat (p - highest w)) (bitmap w) OR 1) i \<longleftrightarrow>
         i < unat p \<and> unat p - i \<in> insert (unat p) seen"
proof -
  let ?h = "unat (highest w)" and ?d = "unat (p - highest w)"
  from assms(2) have h: "?h < unat p" and d: "?d = unat p - ?h"
    by (simp_all add: word_less_nat_alt unat_diff less_imp_le)
  have upd: "bit (push_bit ?d (bitmap w) OR 1) i \<longleftrightarrow> i = 0 \<or> (?d \<le> i \<and> bit (bitmap w) (i - ?d))"
    using assms(3) by (auto simp: bit_simps)
  have old: "bit (bitmap w) (i - ?d) \<longleftrightarrow> i - ?d < ?h \<and> ?h - (i - ?d) \<in> seen"
    using assms(1,3) by (auto simp: window_sim_def)
  have bnd: "s \<le> ?h" if "s \<in> seen" for s using assms(1) that by (auto simp: window_sim_def)
  show ?thesis
  proof (cases "?d \<le> i")
    case True
    then have "?h - (i - ?d) = unat p - i" "i - ?d < ?h \<longleftrightarrow> i < unat p" using h d by auto
    with True upd old h d show ?thesis by auto
  next
    case False
    then have "unat p - i > ?h" using h d by auto
    with False upd h bnd show ?thesis by (auto dest: bnd)
  qed
qed

lemma cleared_bitmap:
  assumes "window_sim w seen" "highest w < p" "i < 64" "\<not> unat (p - highest w) < 64"
  shows "bit (1 :: u64) i \<longleftrightarrow> i < unat p \<and> unat p - i \<in> insert (unat p) seen"
proof -
  let ?h = "unat (highest w)"
  from assms(2) have "?h < unat p" "unat (p - highest w) = unat p - ?h"
    by (simp_all add: word_less_nat_alt unat_diff less_imp_le)
  moreover have "s \<le> ?h" if "s \<in> seen" for s using assms(1) that by (auto simp: window_sim_def)
  ultimately show ?thesis using assms(3,4) by (force simp: bit_simps)
qed

lemma window_new_highest:
  assumes "window_sim w seen" "highest w < p"
  shows "check_and_set w p = (True, snd (check_and_set w p)) \<and>
         window_sim (snd (check_and_set w p)) (insert (unat p) seen)"
proof -
  from assms(2) have p: "p \<noteq> 0" "unat (highest w) < unat p" "0 < unat p"
    by (auto simp: word_less_nat_alt)
  have ge: "p - highest w \<ge> 64 \<longleftrightarrow> \<not> unat (p - highest w) < 64"
    by (simp add: word_le_nat_alt not_less)
  have bnd: "\<forall>s \<in> insert (unat p) seen. 0 < s \<and> s \<le> unat p"
    using assms(1) p by (fastforce simp: window_sim_def)
  show ?thesis
    using assms p bnd shifted_bitmap [OF assms] cleared_bitmap [OF assms]
    by (simp add: check_and_set_def Let_def ge window_sim_def [of _ "insert (unat p) seen"])
qed

lemma window_within:
  assumes "window_sim w seen" "p \<noteq> 0" "p \<le> highest w" "unat (highest w - p) < 64"
  shows "fst (check_and_set w p) = replay_accepts seen p \<and>
         window_sim (snd (check_and_set w p))
           (if replay_accepts seen p then insert (unat p) seen else seen)"
proof -
  let ?h = "unat (highest w)" and ?d = "unat (highest w - p)"
  from assms(2,3) have d: "?d = ?h - unat p" and p: "0 < unat p" "unat p \<le> ?h"
    by (simp_all add: unat_diff word_le_nat_alt unat_gt_0)
  have bd: "bit (bitmap w) ?d \<longleftrightarrow> unat p \<in> seen"
    using assms(1,4) p d by (auto simp: window_sim_def)
  have bnd: "s \<le> ?h" if "s \<in> seen" for s using assms(1) that by (auto simp: window_sim_def)
  have acc: "replay_accepts seen p \<longleftrightarrow> unat p \<notin> seen"
    using assms(2,4) d p bnd by (fastforce simp: replay_accepts_def)
  have set: "bit (bitmap w OR push_bit ?d 1) i \<longleftrightarrow> i < ?h \<and> ?h - i \<in> insert (unat p) seen"
    if "i < 64" for i
    using that assms(1) p d by (auto simp: window_sim_def bit_simps)
  have le: "\<not> highest w - p \<ge> WINDOW_SIZE"
    using assms(4) by (simp add: WINDOW_SIZE_def word_le_nat_alt)
  have hi: "\<not> p > highest w" using assms(3) by simp
  show ?thesis
  proof (cases "unat p \<in> seen")
    case True
    then show ?thesis
      using assms(1,2) hi le acc bd test_bit_mask [OF assms(4), of "bitmap w"]
      by (simp add: check_and_set_def Let_def)
  next
    case False
    have "window_sim (w\<lparr>bitmap := bitmap w OR push_bit ?d 1\<rparr>) (insert (unat p) seen)"
      using assms(1) set p by (auto simp: window_sim_def)
    then show ?thesis
      using False assms(2) hi le acc bd test_bit_mask [OF assms(4), of "bitmap w"]
      by (simp add: check_and_set_def Let_def)
  qed
qed

lemma window_too_old:
  assumes "window_sim w seen" "p \<le> highest w" "\<not> unat (highest w - p) < 64"
  shows "check_and_set w p = (False, w) \<and> \<not> replay_accepts seen p"
proof -
  have d: "unat (highest w - p) = unat (highest w) - unat p"
    using assms(2) by (simp add: unat_diff)
  with assms(3) have "highest w \<noteq> 0" by auto
  then have "unat (highest w) \<in> seen" using assms(1) by (simp add: window_sim_def)
  then have "\<not> replay_accepts seen p" using assms(3) d by (fastforce simp: replay_accepts_def)
  moreover have "highest w - p \<ge> WINDOW_SIZE"
    using assms(3) by (simp add: WINDOW_SIZE_def word_le_nat_alt)
  moreover have "\<not> p > highest w" using assms(2) by simp
  ultimately show ?thesis by (simp add: check_and_set_def Let_def)
qed

lemma window_step:
  assumes "window_sim w seen"
  shows "fst (check_and_set w p) = replay_accepts seen p \<and>
         window_sim (snd (check_and_set w p))
           (if replay_accepts seen p then insert (unat p) seen else seen)"
proof -
  consider "p = 0" | "highest w < p" | "p \<noteq> 0" "p \<le> highest w" "unat (highest w - p) < 64"
    | "p \<noteq> 0" "p \<le> highest w" "\<not> unat (highest w - p) < 64"
    by (meson not_less)
  then show ?thesis
  proof cases
    case 1
    with assms show ?thesis by (simp add: check_and_set_def replay_accepts_def)
  next
    case 2
    with window_new_highest [OF assms 2] new_highest_verdict [OF assms 2] show ?thesis
      by (metis fst_conv)
  next
    case 3
    with assms show ?thesis by (rule window_within)
  next
    case 4
    with window_too_old [OF assms] assms show ?thesis by simp
  qed
qed

interpretation rw: replay_filter ReplayWindow_new check_and_set window_sim
  by unfold_locales (use window_sim_new window_step in blast)+

section \<open>Properties\<close>

text \<open>C5: over any sequence of packet ids, the bitmap window gives exactly the verdicts of the
  specification that remembers every accepted id: an id passes iff it is not 0, was never accepted
  before and is less than 64 behind the highest accepted one.\<close>

theorem replay_refines_spec:
  "verdicts check_and_set ReplayWindow_new pids = replay_spec_run {} pids"
  by (rule rw.verdicts_init)

text \<open>No packet id passes the window twice, whatever the order, gaps and repetitions in
  which ids arrive.\<close>

theorem replay_no_double_accept:
  "distinct (passed check_and_set ReplayWindow_new pids)"
  by (rule rw.passed_distinct)

end
