(* ===== verification/Protocol.thy ===== *)
theory Protocol
  imports Prelude
begin

text \<open>
  The OpenVPN wire format of \<open>src/src/protocol.rs\<close>: opcodes, control packets with their ack
  array and optional fields, and the \<open>P_DATA_V2\<close> header.

  Reading through \<open>bytes::Buf\<close> is written as functions that return the value and the remaining
  bytes (\<open>get_u8\<close>, \<open>get_u32\<close>, \<open>get_u64\<close>, network byte order); every call is behind the
  length check of the source. \<open>encode\<close> keeps the source's \<open>as u8\<close> truncation of the ack count.
\<close>

datatype OpCode =
    ControlHardResetClientV1 | ControlHardResetServerV1 | ControlSoftResetV1 | ControlV1 | AckV1
  | DataV1 | ControlHardResetClientV2 | ControlHardResetServerV2 | DataV2
  | ControlHardResetClientV3 | ControlWkcV1

fun OpCode_as_u8 :: "OpCode \<Rightarrow> u8" where
  "OpCode_as_u8 ControlHardResetClientV1 = 1"
| "OpCode_as_u8 ControlHardResetServerV1 = 2"
| "OpCode_as_u8 ControlSoftResetV1 = 3"
| "OpCode_as_u8 ControlV1 = 4"
| "OpCode_as_u8 AckV1 = 5"
| "OpCode_as_u8 DataV1 = 6"
| "OpCode_as_u8 ControlHardResetClientV2 = 7"
| "OpCode_as_u8 ControlHardResetServerV2 = 8"
| "OpCode_as_u8 DataV2 = 9"
| "OpCode_as_u8 ControlHardResetClientV3 = 10"
| "OpCode_as_u8 ControlWkcV1 = 11"

definition OpCode_from_u8 :: "u8 \<Rightarrow> OpCode result" where
  "OpCode_from_u8 v =
     (if v = 1 then Ok ControlHardResetClientV1
      else if v = 2 then Ok ControlHardResetServerV1
      else if v = 3 then Ok ControlSoftResetV1
      else if v = 4 then Ok ControlV1
      else if v = 5 then Ok AckV1
      else if v = 6 then Ok DataV1
      else if v = 7 then Ok ControlHardResetClientV2
      else if v = 8 then Ok ControlHardResetServerV2
      else if v = 9 then Ok DataV2
      else if v = 10 then Ok ControlHardResetClientV3
      else if v = 11 then Ok ControlWkcV1
      else Err (Bail ''unknown opcode'' [unat v]))"

definition is_control :: "OpCode \<Rightarrow> bool" where
  "is_control op \<longleftrightarrow> \<not> (op = DataV1 \<or> op = DataV2)"

definition is_data :: "OpCode \<Rightarrow> bool" where
  "is_data op \<longleftrightarrow> op = DataV1 \<or> op = DataV2"

record ControlPacket =
  cp_op :: OpCode
  cp_key_id :: u8
  cp_session_id :: u64
  cp_acks :: "u32 list"
  cp_remote_session_id :: "u64 option"
  cp_packet_id :: "u32 option"
  cp_payload :: bytes

section \<open>Reading from a buffer\<close>

definition get_u8 :: "bytes \<Rightarrow> u8 \<times> bytes" where
  "get_u8 b = (hd b, tl b)"

definition get_u32 :: "bytes \<Rightarrow> u32 \<times> bytes" where
  "get_u32 b = (from_be_bytes (take 4 b), drop 4 b)"

definition get_u64 :: "bytes \<Rightarrow> u64 \<times> bytes" where
  "get_u64 b = (from_be_bytes (take 8 b), drop 8 b)"

fun get_acks :: "nat \<Rightarrow> bytes \<Rightarrow> u32 list \<times> bytes" where
  "get_acks 0 b = ([], b)"
| "get_acks (Suc n) b =
     (let (a, b1) = get_u32 b; (as, b2) = get_acks n b1 in (a # as, b2))"

section \<open>Control packets\<close>

definition ControlPacket_parse :: "bytes \<Rightarrow> ControlPacket result" where
  "ControlPacket_parse buf =
     (if buf = [] then bail ''empty packet''
      else
        let (first, b) = get_u8 buf
        in and_then (OpCode_from_u8 (drop_bit 3 first)) (\<lambda>op.
        let key_id = first AND 7
        in if \<not> is_control op then bail ''not a control opcode''
           else if length b < 8 then bail ''missing session id''
           else
             let (session_id, b) = get_u64 b
             in if length b < 1 then bail ''missing ack count''
                else
                  let (ack_count, b) = get_u8 b
                  in if length b < unat ack_count * 4 then bail ''truncated ack array''
                     else
                       let (acks, b) = get_acks (unat ack_count) b
                       in and_then
                            (if ack_count > 0 then
                               if length b < 8 then bail ''missing remote session id''
                               else let (r, b') = get_u64 b in Ok (Some r, b')
                             else Ok (None, b))
                            (\<lambda>(remote_session_id, b).
                          and_then
                            (if op \<noteq> AckV1 then
                               if length b < 4 then bail ''missing packet id''
                               else let (p, b') = get_u32 b in Ok (Some p, b')
                             else Ok (None, b))
                            (\<lambda>(packet_id, b).
                          Ok \<lparr>cp_op = op, cp_key_id = key_id, cp_session_id = session_id,
                              cp_acks = acks, cp_remote_session_id = remote_session_id,
                              cp_packet_id = packet_id, cp_payload = b\<rparr>))))"

text \<open>The opcode octet \<open>((op as u8) << 3) | (key_id & 0x07)\<close> that opens every packet.\<close>

definition op_byte :: "OpCode \<Rightarrow> u8 \<Rightarrow> u8" where
  "op_byte op key_id = push_bit 3 (OpCode_as_u8 op) OR (key_id AND 7)"

definition ControlPacket_encode :: "ControlPacket \<Rightarrow> bytes" where
  "ControlPacket_encode self =
     [op_byte (cp_op self) (cp_key_id self)]
     @ to_be_bytes (cp_session_id self)
     @ [word_of_nat (length (cp_acks self))]
     @ concat (map to_be_bytes (cp_acks self))
     @ (if cp_acks self \<noteq> [] then
          to_be_bytes (case cp_remote_session_id self of None \<Rightarrow> 0 | Some r \<Rightarrow> r)
        else [])
     @ (case cp_packet_id self of None \<Rightarrow> [] | Some pid \<Rightarrow> to_be_bytes pid)
     @ cp_payload self"

section \<open>Data packets\<close>

definition PING_PAYLOAD :: bytes where
  "PING_PAYLOAD =
     [0x2a, 0x18, 0x7b, 0xf3, 0x64, 0x1e, 0xb4, 0xcb, 0x07, 0xed, 0x2d, 0x0a, 0x98, 0x1f, 0xc7, 0x48]"

record DataPacketV2 =
  dp_key_id :: u8
  dp_peer_id :: u32
  dp_packet_id :: u32
  dp_ciphertext :: bytes

definition DataPacketV2_parse :: "bytes \<Rightarrow> DataPacketV2 result" where
  "DataPacketV2_parse buf =
     (if length buf < 8 then bail ''data v2 too short''
      else
        let first = buf ! 0;
            op = drop_bit 3 first
        in if op \<noteq> OpCode_as_u8 DataV2 then Err (Bail ''not P_DATA_V2'' [unat op])
           else
             Ok \<lparr>dp_key_id = first AND 7,
                 dp_peer_id = push_bit 16 (ucast (buf ! 1)) OR push_bit 8 (ucast (buf ! 2)) OR ucast (buf ! 3),
                 dp_packet_id = from_be_bytes [buf ! 4, buf ! 5, buf ! 6, buf ! 7],
                 dp_ciphertext = drop 8 buf\<rparr>)"

section \<open>Opcode byte\<close>

lemma OpCode_from_as [simp]: "OpCode_from_u8 (OpCode_as_u8 op) = Ok op"
  by (cases op) (simp_all add: OpCode_from_u8_def)

lemma OpCode_from_u8_Ok: "OpCode_from_u8 v = Ok op \<Longrightarrow> v = OpCode_as_u8 op"
  by (auto simp: OpCode_from_u8_def split: if_splits)

lemma low3_mask: "(7 :: u8) = mask 3"
  by (simp add: mask_eq_exp_minus_1)

lemma op_byte_join: "drop_bit 3 f = OpCode_as_u8 op \<Longrightarrow> op_byte op (f AND 7) = f"
proof -
  have "push_bit 3 (drop_bit 3 f) OR (f AND 7) = f"
    unfolding low3_mask by (rule bit_word_eqI) (auto simp: bit_simps)
  then show "drop_bit 3 f = OpCode_as_u8 op \<Longrightarrow> op_byte op (f AND 7) = f"
    by (simp add: op_byte_def)
qed

lemma op_byte_key [simp]: "op_byte op k AND 7 = k AND 7"
  unfolding op_byte_def low3_mask by (rule bit_word_eqI) (auto simp: bit_simps)

lemma op_byte_op [simp]: "drop_bit 3 (op_byte op k) = OpCode_as_u8 op"
proof -
  have "drop_bit 3 (push_bit 3 v OR (k AND 7)) = drop_bit 3 (push_bit 3 v)" for v :: u8
    unfolding low3_mask by (rule bit_word_eqI) (auto simp: bit_simps)
  then show ?thesis unfolding op_byte_def by (cases op) simp_all
qed

section \<open>Reading back what was written\<close>

lemma get_u8_Cons [simp]: "get_u8 (x # b) = (x, b)"
  by (simp add: get_u8_def)

lemma get_u32_append [simp]: "get_u32 (to_be_bytes x @ b) = (x, b)"
  by (simp add: get_u32_def from_to_be)

lemma get_u64_append [simp]: "get_u64 (to_be_bytes x @ b) = (x, b)"
  by (simp add: get_u64_def from_to_be)

lemma get_u32_split: "4 \<le> length b \<Longrightarrow> to_be_bytes (fst (get_u32 b)) @ snd (get_u32 b) = b"
  by (simp add: get_u32_def to_from_be)

lemma get_u64_split: "8 \<le> length b \<Longrightarrow> to_be_bytes (fst (get_u64 b)) @ snd (get_u64 b) = b"
  by (simp add: get_u64_def to_from_be)

lemma length_acks_bytes: "length (concat (map to_be_bytes (as :: u32 list))) = 4 * length as"
  by (induction as) simp_all

lemma get_acks_append [simp]:
  "get_acks (length as) (concat (map to_be_bytes as) @ b) = (as, b)"
  by (induction as) simp_all

lemma get_acks_split:
  "4 * n \<le> length b \<Longrightarrow>
     length (fst (get_acks n b)) = n \<and> concat (map to_be_bytes (fst (get_acks n b))) @ snd (get_acks n b) = b"
proof (induction n arbitrary: b)
  case 0
  then show ?case by simp
next
  case (Suc n)
  have "4 * n \<le> length (snd (get_u32 b))" using Suc.prems by (simp add: get_u32_def)
  from Suc.IH [OF this] get_u32_split [of b] Suc.prems show ?case
    by (simp add: case_prod_beta Let_def)
qed

section \<open>Well-formed control packets\<close>

text \<open>What every packet the parser returns satisfies, and what \<open>encode\<close> needs for the receiver to
  read the same packet back: at most 255 acks (the count is one octet), a remote session id exactly
  when there are acks, a packet id exactly when the packet is not a pure ack.\<close>

definition wf_control :: "ControlPacket \<Rightarrow> bool" where
  "wf_control p \<longleftrightarrow>
     is_control (cp_op p) \<and> cp_key_id p AND 7 = cp_key_id p \<and> length (cp_acks p) < 256 \<and>
     (cp_remote_session_id p = None \<longleftrightarrow> cp_acks p = []) \<and>
     (cp_packet_id p = None \<longleftrightarrow> cp_op p = AckV1)"

lemma unat_ack_count: "length (xs :: u32 list) < 256 \<Longrightarrow> unat (word_of_nat (length xs) :: u8) = length xs"
  by (simp add: unat_of_nat)

lemma ack_count_pos: "length (xs :: u32 list) < 256 \<Longrightarrow> (word_of_nat (length xs) :: u8) > 0 \<longleftrightarrow> xs \<noteq> []"
  by (simp add: word_gt_0 word_unat_eq_iff unat_ack_count)

lemma parse_encode:
  assumes "wf_control p"
  shows "ControlPacket_parse (ControlPacket_encode p) = Ok p"
  using assms
  unfolding ControlPacket_parse_def ControlPacket_encode_def wf_control_def
  by (cases p; cases "cp_remote_session_id p"; cases "cp_packet_id p")
    (simp_all add: unat_ack_count ack_count_pos length_acks_bytes del: OpCode_as_u8.simps)

text \<open>The parser cuts its input into the fields \<open>encode\<close> writes: the suffixes it walks through.\<close>

lemma parse_stages:
  assumes "ControlPacket_parse (first # b) = Ok p"
  defines "b1 \<equiv> snd (get_u64 b)"
  defines "n \<equiv> unat (hd b1)"
  defines "b3 \<equiv> snd (get_acks n (tl b1))"
  defines "b4 \<equiv> (if 0 < n then snd (get_u64 b3) else b3)"
  shows "OpCode_from_u8 (drop_bit 3 first) = Ok (cp_op p) \<and> is_control (cp_op p) \<and>
         cp_key_id p = first AND 7 \<and>
         8 \<le> length b \<and> cp_session_id p = fst (get_u64 b) \<and> b1 \<noteq> [] \<and>
         4 * n \<le> length (tl b1) \<and> cp_acks p = fst (get_acks n (tl b1)) \<and>
         (0 < n \<longrightarrow> 8 \<le> length b3) \<and>
         cp_remote_session_id p = (if 0 < n then Some (fst (get_u64 b3)) else None) \<and>
         (cp_op p \<noteq> AckV1 \<longrightarrow> 4 \<le> length b4) \<and>
         cp_packet_id p = (if cp_op p \<noteq> AckV1 then Some (fst (get_u32 b4)) else None) \<and>
         cp_payload p = (if cp_op p \<noteq> AckV1 then snd (get_u32 b4) else b4)"
  using assms(1) unfolding b4_def b3_def n_def b1_def
  by (auto simp: ControlPacket_parse_def and_then_eq_Ok Let_def case_prod_beta get_u8_def
      not_less mult.commute unat_gt_0 word_gt_0 neq_Nil_conv split: if_splits)

lemma encode_parse:
  assumes "ControlPacket_parse buf = Ok p"
  shows "wf_control p \<and> ControlPacket_encode p = buf"
proof -
  from assms obtain first b where buf: "buf = first # b"
    by (cases buf) (auto simp: ControlPacket_parse_def)
  define b1 where "b1 = snd (get_u64 b)"
  define n where "n = unat (hd b1)"
  define b3 where "b3 = snd (get_acks n (tl b1))"
  define b4 where "b4 = (if 0 < n then snd (get_u64 b3) else b3)"
  note st = parse_stages [OF assms [unfolded buf], folded b1_def, folded n_def,
      folded b3_def, folded b4_def]
  have n: "n < 256" "word_of_nat n = hd b1"
    using unsigned_less [of "hd b1"] by (simp_all add: n_def)
  have acks: "length (cp_acks p) = n" "concat (map to_be_bytes (cp_acks p)) @ b3 = tl b1"
    using st get_acks_split [of n "tl b1"] by (simp_all add: b3_def)
  have wf: "wf_control p"
    using st acks n by (auto simp: wf_control_def and.assoc)
  have tail: "(case cp_packet_id p of None \<Rightarrow> [] | Some pid \<Rightarrow> to_be_bytes pid) @ cp_payload p = b4"
    using st get_u32_split [of b4] by (cases "cp_op p = AckV1") simp_all
  have mid: "(if cp_acks p \<noteq> [] then to_be_bytes (case cp_remote_session_id p of None \<Rightarrow> 0 | Some r \<Rightarrow> r)
      else []) @ b4 = b3"
    using st acks get_u64_split [of b3] by (cases "n = 0") (auto simp: b4_def)
  have "to_be_bytes (cp_session_id p) @ b1 = b"
    using st get_u64_split [of b] by (simp add: b1_def)
  moreover have "hd b1 # tl b1 = b1" using st by simp
  moreover have "op_byte (cp_op p) (cp_key_id p) = first"
    using st op_byte_join OpCode_from_u8_Ok by metis
  ultimately have "ControlPacket_encode p = buf"
    unfolding ControlPacket_encode_def buf using tail mid acks n by simp
  with wf show ?thesis by blast
qed

section \<open>Properties\<close>

text \<open>C24: a well-formed control packet survives the wire: parsing its encoding gives back the same
  opcode, key id, session ids, acks, packet id and payload.\<close>

theorem control_roundtrip:
  assumes "wf_control p"
  shows "ControlPacket_parse (ControlPacket_encode p) = Ok p"
  using assms by (rule parse_encode)

theorem control_roundtrip_witness:
  "let p = \<lparr>cp_op = ControlV1, cp_key_id = 0, cp_session_id = 42, cp_acks = [1, 2],
            cp_remote_session_id = Some 99, cp_packet_id = Some 7,
            cp_payload = [0xDE, 0xAD, 0xBE, 0xEF]\<rparr>
   in wf_control p \<and> ControlPacket_parse (ControlPacket_encode p) = Ok p"
proof -
  have "wf_control \<lparr>cp_op = ControlV1, cp_key_id = 0, cp_session_id = 42, cp_acks = [1, 2],
      cp_remote_session_id = Some 99, cp_packet_id = Some 7, cp_payload = [0xDE, 0xAD, 0xBE, 0xEF]\<rparr>"
    by (simp add: wf_control_def is_control_def)
  from this control_roundtrip [OF this] show ?thesis by (simp only: Let_def simp_thms)
qed

text \<open>C25: the parser accepts exactly the canonical encodings: whatever bytes it accepts are the
  encoding of the packet it returns (no octet is ignored, reinterpreted or left over), and that
  packet is well-formed.\<close>

theorem control_parse_canonical:
  assumes "ControlPacket_parse buf = Ok p"
  shows "wf_control p \<and> ControlPacket_encode p = buf"
  using assms by (rule encode_parse)

theorem control_parse_canonical_witness:
  "let buf = [56, 0x11, 0x22, 0x33, 0x44, 0x55, 0x66, 0x77, 0x88, 0, 0, 0, 0, 0];
       p = \<lparr>cp_op = ControlHardResetClientV2, cp_key_id = 0, cp_session_id = 0x1122334455667788,
            cp_acks = [], cp_remote_session_id = None, cp_packet_id = Some 0, cp_payload = []\<rparr>
   in ControlPacket_parse buf = Ok p \<and> wf_control p \<and> ControlPacket_encode p = buf"
proof -
  have "ControlPacket_parse [56, 0x11, 0x22, 0x33, 0x44, 0x55, 0x66, 0x77, 0x88, 0, 0, 0, 0, 0] =
      Ok \<lparr>cp_op = ControlHardResetClientV2, cp_key_id = 0, cp_session_id = 0x1122334455667788,
            cp_acks = [], cp_remote_session_id = None, cp_packet_id = Some 0, cp_payload = []\<rparr>"
    by (simp add: ControlPacket_parse_def OpCode_from_u8_def is_control_def get_u64_def get_u32_def
        from_be_bytes_def)
  from this control_parse_canonical [OF this] show ?thesis by (simp only: Let_def simp_thms)
qed



end
