(* ===== verification/Rust_Str.thy ===== *)
theory Rust_Str
  imports Prelude
begin

text \<open>
  The parts of Rust's \<open>str\<close>/\<open>String\<close> API the program calls, on UTF-8 code units:
  \<open>as_bytes\<close>, \<open>String::from_utf8_lossy\<close>, \<open>lines\<close>, \<open>trim\<close>, \<open>starts_with\<close>, \<open>split_once\<close>,
  \<open>eq_ignore_ascii_case\<close>, decimal \<open>Display\<close> and \<open>str::parse::<u32>\<close>.
\<close>

section \<open>Code units\<close>

definition as_bytes :: "rstring \<Rightarrow> bytes" where
  "as_bytes s = map (\<lambda>c. word_of_nat (of_char c)) s"

definition str_of_bytes :: "bytes \<Rightarrow> rstring" where
  "str_of_bytes bs = map (\<lambda>b. char_of (unat b)) bs"

lemma unat_u8_less [simp]: "unat (b :: u8) < 256"
  using unsigned_less [of b] by simp

lemma as_bytes_simps [simp]:
  "as_bytes [] = []"
  "as_bytes (c # s) = word_of_nat (of_char c) # as_bytes s"
  "as_bytes (s @ t) = as_bytes s @ as_bytes t"
  by (simp_all add: as_bytes_def)

lemma length_as_bytes [simp]: "length (as_bytes s) = length s"
  by (simp add: as_bytes_def)

lemma length_str_of_bytes [simp]: "length (str_of_bytes bs) = length bs"
  by (simp add: str_of_bytes_def)

lemma char_byte_char: "char_of (unat (word_of_nat (of_char c) :: u8)) = (c :: char)"
proof -
  have "(of_char c :: nat) < 256" by (rule nat_of_char_less_256)
  then show ?thesis by (simp add: unat_of_nat)
qed

lemma str_of_as_bytes [simp]: "str_of_bytes (as_bytes s) = s"
  by (induction s) (simp_all add: str_of_bytes_def as_bytes_def char_byte_char)

lemma as_bytes_of_str [simp]: "as_bytes (str_of_bytes bs) = bs"
  by (induction bs) (simp_all add: str_of_bytes_def as_bytes_def)

section \<open>\<open>String::from_utf8_lossy\<close>\<close>

text \<open>One scanning step of the standard library's UTF-8 chunker: whether the bytes start with a
  well-formed character, and how many bytes the step consumes (the character, or the maximal
  ill-formed prefix that becomes one U+FFFD).\<close>

definition safe_get :: "bytes \<Rightarrow> nat \<Rightarrow> u8" where
  "safe_get xs i = (if i < length xs then xs ! i else 0)"

definition is_cont :: "u8 \<Rightarrow> bool" where
  "is_cont b \<longleftrightarrow> b AND 192 = 128"

definition second_ok :: "u8 \<Rightarrow> u8 \<Rightarrow> bool" where
  "second_ok b n \<longleftrightarrow>
     b = 0xE0 \<and> 0xA0 \<le> n \<and> n \<le> 0xBF \<or> 0xE1 \<le> b \<and> b \<le> 0xEC \<and> 0x80 \<le> n \<and> n \<le> 0xBF \<or>
     b = 0xED \<and> 0x80 \<le> n \<and> n \<le> 0x9F \<or> 0xEE \<le> b \<and> b \<le> 0xEF \<and> 0x80 \<le> n \<and> n \<le> 0xBF \<or>
     b = 0xF0 \<and> 0x90 \<le> n \<and> n \<le> 0xBF \<or> 0xF1 \<le> b \<and> b \<le> 0xF3 \<and> 0x80 \<le> n \<and> n \<le> 0xBF \<or>
     b = 0xF4 \<and> 0x80 \<le> n \<and> n \<le> 0x8F"

definition char_width :: "u8 \<Rightarrow> nat" where
  "char_width b =
     (if b < 0x80 then 1
      else if 0xC2 \<le> b \<and> b \<le> 0xDF then 2
      else if 0xE0 \<le> b \<and> b \<le> 0xEF then 3
      else if 0xF0 \<le> b \<and> b \<le> 0xF4 then 4
      else 0)"

definition utf8_step :: "bytes \<Rightarrow> bool \<times> nat" where
  "utf8_step xs =
     (let b = safe_get xs 0; w = char_width b
      in if w = 1 then (True, 1)
         else if w = 2 then (if is_cont (safe_get xs 1) then (True, 2) else (False, 1))
         else if w = 3 then
           (if \<not> second_ok b (safe_get xs 1) then (False, 1)
            else if is_cont (safe_get xs 2) then (True, 3) else (False, 2))
         else if w = 4 then
           (if \<not> second_ok b (safe_get xs 1) then (False, 1)
            else if \<not> is_cont (safe_get xs 2) then (False, 2)
            else if is_cont (safe_get xs 3) then (True, 4) else (False, 3))
         else (False, 1))"

definition replacement :: bytes where
  "replacement = [0xEF, 0xBF, 0xBD]"

function lossy :: "bytes \<Rightarrow> bytes" where
  "lossy [] = []"
| "lossy (x # xs) =
     (let (ok, n) = utf8_step (x # xs)
      in (if ok then take n (x # xs) else replacement) @ lossy (drop (n - 1) xs))"
  by pat_completeness auto
termination
  by (relation "measure length") auto

definition from_utf8_lossy :: "bytes \<Rightarrow> rstring" where
  "from_utf8_lossy bs = str_of_bytes (lossy bs)"

text \<open>The well-formed byte strings: every step succeeds.\<close>

function utf8_valid :: "bytes \<Rightarrow> bool" where
  "utf8_valid [] = True"
| "utf8_valid (x # xs) = (let (ok, n) = utf8_step (x # xs) in ok \<and> utf8_valid (drop (n - 1) xs))"
  by pat_completeness auto
termination
  by (relation "measure length") auto

lemma safe_get_append: "i < length xs \<Longrightarrow> safe_get (xs @ ys) i = safe_get xs i"
  by (simp add: safe_get_def nth_append)

lemma cont_zero [simp]: "\<not> is_cont 0" "\<not> second_ok b 0"
  by (simp_all add: is_cont_def second_ok_def)

lemma utf8_step_pos: "0 < snd (utf8_step xs)"
  by (simp add: utf8_step_def Let_def)

lemma safe_get_bound: "is_cont (safe_get xs i) \<Longrightarrow> i < length xs"
  by (auto simp: safe_get_def split: if_splits)

lemma second_get_bound: "second_ok b (safe_get xs i) \<Longrightarrow> i < length xs"
  by (auto simp: safe_get_def split: if_splits)

lemma utf8_step_bound: "xs \<noteq> [] \<Longrightarrow> snd (utf8_step xs) \<le> length xs"
  by (auto simp: utf8_step_def Let_def Suc_le_eq dest: safe_get_bound second_get_bound)

text \<open>A successful step depends only on the bytes it consumes.\<close>

lemma utf8_step_take:
  assumes "utf8_step xs = (True, n)" "xs \<noteq> []"
  shows "utf8_step (take n xs @ ys) = (True, n)"
proof -
  have n: "n \<le> length xs" "0 < n" using utf8_step_bound [OF assms(2)] utf8_step_pos [of xs] assms(1) by auto
  have g: "safe_get (take n xs @ ys) i = safe_get xs i" if "i < n" for i
    using that n by (simp add: safe_get_append) (simp add: safe_get_def)
  show ?thesis
    using assms(1) n g [of 0] g [of 1] g [of 2] g [of 3]
    by (auto simp: utf8_step_def Let_def split: if_splits)
qed

lemma lossy_valid: "utf8_valid bs \<Longrightarrow> lossy bs = bs"
proof (induction bs rule: utf8_valid.induct)
  case 1
  then show ?case by simp
next
  case (2 x xs)
  obtain n where st: "utf8_step (x # xs) = (True, n)" and v: "utf8_valid (drop (n - 1) xs)"
    using "2.prems" by (auto simp: case_prod_beta Let_def) (metis prod.collapse)
  from "2.IH" [OF st [symmetric] refl v] have "lossy (drop (n - 1) xs) = drop (n - 1) xs" by simp
  moreover have "take n (x # xs) @ drop (n - 1) xs = x # xs"
    using utf8_step_pos [of "x # xs"] st by (cases n) simp_all
  ultimately show ?case using st by simp
qed

lemma utf8_valid_step:
  "utf8_step (take n zs) = (True, n) \<Longrightarrow> length zs = n \<Longrightarrow> utf8_valid ys \<Longrightarrow> utf8_valid (zs @ ys)"
proof -
  assume a: "utf8_step (take n zs) = (True, n)" "length zs = n" "utf8_valid ys"
  then have n: "0 < n" using utf8_step_pos [of "take n zs"] by simp
  with a obtain z zs' where zs: "zs = z # zs'" by (cases zs) auto
  have "utf8_step (zs @ ys) = (True, n)"
    using utf8_step_take [of "zs" n ys] a zs by simp
  then show ?thesis using a zs by simp
qed

text \<open>Whatever the input, the result is well-formed; on well-formed input it is the identity.\<close>

lemma lossy_is_valid: "utf8_valid (lossy bs)"
proof (induction bs rule: lossy.induct)
  case 1
  then show ?case by simp
next
  case (2 x xs)
  obtain ok n where st: "utf8_step (x # xs) = (ok, n)" by fastforce
  have IH: "utf8_valid (lossy (drop (n - 1) xs))" using "2.IH" [OF st [symmetric] refl] .
  show ?case
  proof (cases ok)
    case True
    have len: "length (take n (x # xs)) = n" using utf8_step_bound [of "x # xs"] st by simp
    have "utf8_step (take n (x # xs)) = (True, n)"
      using utf8_step_take [of "x # xs" n "[]"] st True by simp
    with len IH have "utf8_valid (take n (x # xs) @ lossy (drop (n - 1) xs))"
      by (intro utf8_valid_step) simp_all
    then show ?thesis using st True by simp
  next
    case False
    have "utf8_step replacement = (True, 3)"
      by (simp add: replacement_def utf8_step_def Let_def safe_get_def char_width_def second_ok_def is_cont_def)
    then have "utf8_valid (replacement @ lossy (drop (n - 1) xs))"
      using IH by (intro utf8_valid_step [where n = 3]) (simp_all add: replacement_def)
    then show ?thesis using st False by simp
  qed
qed

lemma from_utf8_lossy_id: "utf8_valid (as_bytes s) \<Longrightarrow> from_utf8_lossy (as_bytes s) = s"
  by (simp add: from_utf8_lossy_def lossy_valid)

definition ascii :: "bytes \<Rightarrow> bool" where
  "ascii bs \<longleftrightarrow> (\<forall>b \<in> set bs. b < 0x80)"

lemma ascii_valid: "ascii bs \<Longrightarrow> utf8_valid bs"
  by (induction bs) (simp_all add: ascii_def utf8_step_def Let_def safe_get_def char_width_def)

declare lossy.simps(2) [simp del] utf8_valid.simps(2) [simp del]

lemma ascii_simps [simp]:
  "ascii []"
  "ascii (x # xs) \<longleftrightarrow> x < 0x80 \<and> ascii xs"
  "ascii (xs @ ys) \<longleftrightarrow> ascii xs \<and> ascii ys"
  by (auto simp: ascii_def)

section \<open>Lines and trimming\<close>

definition strip_cr :: "rstring \<Rightarrow> rstring" where
  "strip_cr l = (if l \<noteq> [] \<and> last l = CHR 0x0D then butlast l else l)"

lemma dropWhile_shorter: "dropWhile P s = x # r \<Longrightarrow> length r < length s"
  using length_dropWhile_le [of P s] by simp

function lines :: "rstring \<Rightarrow> rstring list" where
  "lines s =
     (if s = [] then []
      else let l = takeWhile (\<lambda>c. c \<noteq> CHR 0x0A) s
           in case dropWhile (\<lambda>c. c \<noteq> CHR 0x0A) s of
                [] \<Rightarrow> [l]
              | _ # r \<Rightarrow> strip_cr l # lines r)"
  by pat_completeness auto
termination
  by (relation "measure length")
    (simp_all add: dropWhile_shorter)

declare lines.simps [simp del]

lemma lines_Nil [simp]: "lines [] = []"
  by (simp add: lines.simps)

lemma lines_newline:
  assumes "CHR 0x0A \<notin> set l"
  shows "lines (l @ CHR 0x0A # r) = strip_cr l # lines r"
proof -
  have "takeWhile (\<lambda>c. c \<noteq> CHR 0x0A) (l @ CHR 0x0A # r) = l"
    "dropWhile (\<lambda>c. c \<noteq> CHR 0x0A) (l @ CHR 0x0A # r) = CHR 0x0A # r"
    using assms by (auto simp: takeWhile_tail dropWhile_append3 intro: takeWhile_append2)
  then show ?thesis by (subst lines.simps) simp
qed

text \<open>Unicode \<open>White_Space\<close> as UTF-8 sequences of one, two and three octets.\<close>

definition ws1 :: "nat \<Rightarrow> bool" where
  "ws1 a \<longleftrightarrow> 9 \<le> a \<and> a \<le> 13 \<or> a = 32"

definition ws2 :: "nat \<Rightarrow> nat \<Rightarrow> bool" where
  "ws2 a b \<longleftrightarrow> a = 0xC2 \<and> (b = 0x85 \<or> b = 0xA0)"

definition ws3 :: "nat \<Rightarrow> nat \<Rightarrow> nat \<Rightarrow> bool" where
  "ws3 a b c \<longleftrightarrow>
     a = 0xE1 \<and> b = 0x9A \<and> c = 0x80 \<or>
     a = 0xE2 \<and> b = 0x80 \<and> (0x80 \<le> c \<and> c \<le> 0x8A \<or> c = 0xA8 \<or> c = 0xA9 \<or> c = 0xAF) \<or>
     a = 0xE2 \<and> b = 0x81 \<and> c = 0x9F \<or>
     a = 0xE3 \<and> b = 0x80 \<and> c = 0x80"

fun trim_start :: "rstring \<Rightarrow> rstring" where
  "trim_start (a # b # c # s) =
     (if ws1 (of_char a) then trim_start (b # c # s)
      else if ws2 (of_char a) (of_char b) then trim_start (c # s)
      else if ws3 (of_char a) (of_char b) (of_char c) then trim_start s
      else a # b # c # s)"
| "trim_start [a, b] =
     (if ws1 (of_char a) then trim_start [b]
      else if ws2 (of_char a) (of_char b) then [] else [a, b])"
| "trim_start [a] = (if ws1 (of_char a) then [] else [a])"
| "trim_start [] = []"

text \<open>From the end, over the reversed string.\<close>

fun trim_rev :: "rstring \<Rightarrow> rstring" where
  "trim_rev (c # b # a # s) =
     (if ws1 (of_char c) then trim_rev (b # a # s)
      else if ws2 (of_char b) (of_char c) then trim_rev (a # s)
      else if ws3 (of_char a) (of_char b) (of_char c) then trim_rev s
      else c # b # a # s)"
| "trim_rev [c, b] =
     (if ws1 (of_char c) then trim_rev [b]
      else if ws2 (of_char b) (of_char c) then [] else [c, b])"
| "trim_rev [c] = (if ws1 (of_char c) then [] else [c])"
| "trim_rev [] = []"

definition trim :: "rstring \<Rightarrow> rstring" where
  "trim s = rev (trim_rev (rev (trim_start s)))"

definition starts_with :: "rstring \<Rightarrow> rstring \<Rightarrow> bool" where
  "starts_with s pre \<longleftrightarrow> take (length pre) s = pre"

text \<open>Printable ASCII is never white space, so a line of it is left alone.\<close>

definition graphic :: "char \<Rightarrow> bool" where
  "graphic c \<longleftrightarrow> 33 \<le> (of_char c :: nat) \<and> (of_char c :: nat) \<le> 126"

lemma graphic_not_ws:
  "graphic c \<Longrightarrow> \<not> ws1 (of_char c) \<and> \<not> ws2 (of_char c) b \<and> \<not> ws2 b (of_char c) \<and>
     \<not> ws3 (of_char c) b d \<and> \<not> ws3 b d (of_char c)"
  by (auto simp: graphic_def ws1_def ws2_def ws3_def)

lemma trim_start_graphic: "graphic c \<Longrightarrow> trim_start (c # s) = c # s"
  by (cases s rule: list.exhaust; cases "tl s" rule: list.exhaust) (simp_all add: graphic_not_ws)

lemma trim_rev_graphic: "graphic c \<Longrightarrow> trim_rev (c # s) = c # s"
  by (cases s rule: list.exhaust; cases "tl s" rule: list.exhaust) (simp_all add: graphic_not_ws)

lemma trim_graphic:
  assumes "graphic (hd s)" "graphic (last s)"
  shows "trim s = s"
proof (cases s rule: rev_cases)
  case Nil
  then show ?thesis by (simp add: trim_def)
next
  case (snoc t c)
  then have "trim_start s = s" using assms(1) trim_start_graphic [of "hd s" "tl s"]
    by (cases s) simp_all
  then show ?thesis using assms(2) snoc trim_rev_graphic [of c "rev t"] by (simp add: trim_def)
qed

section \<open>Numbers\<close>

definition digit :: "nat \<Rightarrow> char" where
  "digit n = char_of (48 + n)"

fun show_dec :: "nat \<Rightarrow> rstring" where
  "show_dec n = (if n < 10 then [digit n] else show_dec (n div 10) @ [digit (n mod 10)])"

declare show_dec.simps [simp del]

text \<open>\<open>str::parse::<u32>\<close>: an optional leading plus sign, then at least one digit; a value that does
  not fit is an error.\<close>

definition digit_val :: "char \<Rightarrow> nat option" where
  "digit_val c = (let n = of_char c in if 48 \<le> n \<and> n \<le> 57 then Some (n - 48) else None)"

fun parse_digits :: "nat \<Rightarrow> nat \<Rightarrow> rstring \<Rightarrow> nat option" where
  "parse_digits bound acc [] = Some acc"
| "parse_digits bound acc (c # s) =
     (case digit_val c of
        None \<Rightarrow> None
      | Some d \<Rightarrow> if acc * 10 + d < bound then parse_digits bound (acc * 10 + d) s else None)"

definition parse_u32 :: "rstring \<Rightarrow> u32 option" where
  "parse_u32 s =
     (let t = (case s of c # r \<Rightarrow> if c = CHR ''+'' then r else s | [] \<Rightarrow> [])
      in if t = [] then None else map_option word_of_nat (parse_digits (2 ^ 32) 0 t))"

lemma digit_val_digit: "d < 10 \<Longrightarrow> digit_val (digit d) = Some d"
  by (simp add: digit_val_def digit_def)

lemma parse_digits_append:
  "parse_digits k a (s @ t) = (case parse_digits k a s of None \<Rightarrow> None | Some b \<Rightarrow> parse_digits k b t)"
  by (induction s arbitrary: a) (auto split: option.splits)

lemma parse_show_dec: "n < k \<Longrightarrow> parse_digits k 0 (show_dec n) = Some n"
proof (induction n rule: show_dec.induct)
  case (1 n)
  show ?case
  proof (cases "n < 10")
    case True
    with "1.prems" show ?thesis by (subst show_dec.simps) (simp add: digit_val_digit)
  next
    case False
    then have "parse_digits k 0 (show_dec (n div 10)) = Some (n div 10)"
      using "1.IH" "1.prems" by simp
    moreover have "n div 10 * 10 + n mod 10 = n" by simp
    ultimately show ?thesis using False "1.prems"
      by (subst show_dec.simps) (simp add: parse_digits_append digit_val_digit)
  qed
qed

lemma digit_graphic: "d < 10 \<Longrightarrow> 48 \<le> (of_char (digit d) :: nat) \<and> (of_char (digit d) :: nat) \<le> 57"
  by (simp add: digit_def)

lemma show_dec_digits: "\<forall>c \<in> set (show_dec n). 48 \<le> (of_char c :: nat) \<and> (of_char c :: nat) \<le> 57"
proof (induction n rule: show_dec.induct)
  case (1 n)
  then show ?case by (subst show_dec.simps) (auto simp: digit_graphic)
qed

lemma show_dec_nonempty [simp]: "show_dec n \<noteq> []"
  by (subst show_dec.simps) simp

lemma parse_u32_show: "n < 2 ^ 32 \<Longrightarrow> parse_u32 (show_dec n) = Some (word_of_nat n)"
proof -
  assume n: "n < 2 ^ 32"
  obtain c r where s: "show_dec n = c # r" by (cases "show_dec n") auto
  have "c \<noteq> CHR ''+''" using show_dec_digits [of n] s by auto
  then show ?thesis using parse_show_dec [OF n] s by (simp add: parse_u32_def)
qed

section \<open>Other string operations\<close>

text \<open>\<open>s.split_once(c)\<close>: the parts before and after the first occurrence.\<close>

fun split_once :: "char \<Rightarrow> rstring \<Rightarrow> (rstring \<times> rstring) option" where
  "split_once c [] = None"
| "split_once c (x # s) =
     (if x = c then Some ([], s) else map_option (\<lambda>(a, b). (x # a, b)) (split_once c s))"

lemma split_once_append: "c \<notin> set s \<Longrightarrow> split_once c (s @ c # t) = Some (s, t)"
  by (induction s) auto

definition to_ascii_lowercase :: "char \<Rightarrow> char" where
  "to_ascii_lowercase c =
     (if 65 \<le> (of_char c :: nat) \<and> (of_char c :: nat) \<le> 90 then char_of ((of_char c :: nat) + 32) else c)"

definition eq_ignore_ascii_case :: "rstring \<Rightarrow> rstring \<Rightarrow> bool" where
  "eq_ignore_ascii_case s t \<longleftrightarrow> map to_ascii_lowercase s = map to_ascii_lowercase t"

end
