(* ===== verification/Streaming.thy ===== *)
theory Streaming
  imports Rust_Str
begin

text \<open>
  Messages popped off a growing byte buffer: the \<open>Pop\<close> result of
  \<open>src/src/control_channel.rs\<close> and the interface its parsers share. The server appends plaintext
  (or TCP bytes) to a buffer and pops complete messages off the front; the interface
  \<open>stream_parser\<close> states what makes that independent of how the bytes were cut into pieces.
\<close>

datatype 'a Pop = Ready 'a nat | NeedMore

text \<open>Pop messages until the buffer holds no complete one, as the callers' loops do.\<close>

function pop_all :: "(bytes \<Rightarrow> 'm Pop result) \<Rightarrow> bytes \<Rightarrow> 'm list \<times> bytes" where
  "pop_all parse b =
     (case parse b of
        Inl e \<Rightarrow> ([], b)
      | Inr NeedMore \<Rightarrow> ([], b)
      | Inr (Ready m n) \<Rightarrow>
          if 0 < n \<and> n \<le> length b then
            let (ms, r) = pop_all parse (drop n b) in (m # ms, r)
          else ([], b))"
  by pat_completeness auto
termination
  by (relation "measure (\<lambda>(p, b). length b)") auto

declare pop_all.simps [simp del]

text \<open>Feeding the pieces one after another, popping after each.\<close>

fun pop_pieces :: "(bytes \<Rightarrow> 'm Pop result) \<Rightarrow> bytes \<Rightarrow> bytes list \<Rightarrow> 'm list \<times> bytes" where
  "pop_pieces parse b [] = ([], b)"
| "pop_pieces parse b (c # cs) =
     (let (ms, r) = pop_all parse (b @ c); (ms', r') = pop_pieces parse r cs in (ms @ ms', r'))"

locale stream_parser =
  fixes parse :: "bytes \<Rightarrow> 'm Pop result"
  assumes consumes: "parse b = Ok (Ready m n) \<Longrightarrow> 0 < n \<and> n \<le> length b"
    and stable: "parse b = Ok (Ready m n) \<Longrightarrow> parse (b @ c) = Ok (Ready m n)"
    and err_stable: "parse b = Err e \<Longrightarrow> parse (b @ c) = Err e"
begin

lemma pop_all_Ready:
  "parse b = Ok (Ready m n) \<Longrightarrow>
     pop_all parse b = (m # fst (pop_all parse (drop n b)), snd (pop_all parse (drop n b)))"
  using consumes [of b m n] by (subst pop_all.simps) (simp add: case_prod_beta)

lemma pop_all_stop: "(\<And>m n. parse b \<noteq> Ok (Ready m n)) \<Longrightarrow> pop_all parse b = ([], b)"
  by (subst pop_all.simps) (auto split: sum.split Pop.split)

lemma pop_all_append:
  "pop_all parse (b @ c) =
     (fst (pop_all parse b) @ fst (pop_all parse (snd (pop_all parse b) @ c)),
      snd (pop_all parse (snd (pop_all parse b) @ c)))"
proof (induction b rule: length_induct)
  case (1 b)
  show ?case
  proof (cases "\<exists>m n. parse b = Ok (Ready m n)")
    case False
    then show ?thesis by (simp add: pop_all_stop)
  next
    case True
    then obtain m n where Ready: "parse b = Ok (Ready m n)" by blast
    note c = consumes [OF Ready]
    then have "length (drop n b) < length b" unfolding length_drop by linarith
    with 1 have IH: "pop_all parse (drop n b @ c) =
      (fst (pop_all parse (drop n b)) @ fst (pop_all parse (snd (pop_all parse (drop n b)) @ c)),
       snd (pop_all parse (snd (pop_all parse (drop n b)) @ c)))" by blast
    have "drop n (b @ c) = drop n b @ c" using c by simp
    with IH pop_all_Ready [OF stable [OF Ready]] pop_all_Ready [OF Ready] show ?thesis by simp
  qed
qed

lemma pieces_whole: "pop_pieces parse b cs =
    (if cs = [] then ([], b) else pop_all parse (b @ concat cs))"
proof (induction cs arbitrary: b)
  case Nil
  then show ?case by simp
next
  case (Cons c cs)
  show ?case
  proof (cases "cs = []")
    case True
    then show ?thesis by (simp add: case_prod_beta)
  next
    case False
    with Cons show ?thesis
      using pop_all_append [of "b @ c" "concat cs"] by (simp add: case_prod_beta)
  qed
qed

lemma pieces_same_stream:
  "concat cs = concat ds \<Longrightarrow> cs \<noteq> [] \<Longrightarrow> ds \<noteq> [] \<Longrightarrow> pop_pieces parse [] cs = pop_pieces parse [] ds"
  by (simp add: pieces_whole)

end

text \<open>A format whose encodings the parser reads back, each in front of whatever follows.\<close>

locale stream_codec = stream_parser parse for parse :: "bytes \<Rightarrow> 'm Pop result" +
  fixes enc :: "'m \<Rightarrow> bytes"
    and wf :: "'m \<Rightarrow> bool"
  assumes enc_parse: "wf m \<Longrightarrow> parse (enc m @ rest) = Ok (Ready m (length (enc m)))"
begin

lemma prefix_needs_more:
  assumes "wf m" "k < length (enc m)"
  shows "parse (take k (enc m)) = Ok NeedMore"
proof -
  have whole: "parse (take k (enc m) @ drop k (enc m)) = Ok (Ready m (length (enc m)))"
    using enc_parse [OF assms(1), of "[]"] by simp
  show ?thesis
  proof (cases "parse (take k (enc m))")
    case (Inl e)
    from err_stable [OF this] whole have False by (metis sum.distinct(1))
    then show ?thesis ..
  next
    case (Inr p)
    show ?thesis
    proof (cases p)
      case (Ready m' n)
      with Inr have r: "parse (take k (enc m)) = Ok (Ready m' n)" by simp
      from stable [OF r] whole have "n = length (enc m)"
        by (metis Pop.inject sum.inject(2))
      with consumes [OF r] assms(2) have False by simp
      then show ?thesis ..
    qed (use Inr in simp)
  qed
qed

lemma pop_all_encoded:
  "list_all wf ms \<Longrightarrow>
     pop_all parse (concat (map enc ms) @ rest) = (ms @ fst (pop_all parse rest), snd (pop_all parse rest))"
proof (induction ms)
  case Nil
  then show ?case by simp
next
  case (Cons m ms)
  then have "parse (enc m @ concat (map enc ms) @ rest) = Ok (Ready m (length (enc m)))"
    by (simp add: enc_parse)
  from pop_all_Ready [OF this] Cons show ?case by simp
qed

end

end
