(* ===== verification/Control_Channel.thy ===== *)
theory Control_Channel
  imports Streaming
begin

text \<open>
  The plaintext messages inside the TLS stream (\<open>src/src/control_channel.rs\<close>): the client's
  key-method-2 packet, the server's reply, length-prefixed strings, NUL-terminated ASCII
  messages, and the option and peer-info strings the server announces.
\<close>

definition KEY_METHOD_2 :: u8 where
  "KEY_METHOD_2 = 2"

definition PRE_MASTER_LEN :: nat where
  "PRE_MASTER_LEN = 48"

definition RANDOM_LEN :: nat where
  "RANDOM_LEN = 32"

record ClientKeyMethod2 =
  km_pre_master :: bytes
  km_random1 :: bytes
  km_random2 :: bytes
  km_options :: rstring
  km_username :: rstring
  km_password :: rstring
  km_peer_info :: rstring

section \<open>Length-prefixed strings\<close>

text \<open>\<open>off\<close> is the source's \<open>&mut usize\<close>: it moves only when a string was read.\<close>

definition read_lp_string :: "bytes \<Rightarrow> nat \<Rightarrow> (rstring option \<times> nat) result" where
  "read_lp_string buf off =
     (if length buf < off + 2 then Ok (None, off)
      else
        let len = unat (from_be_bytes [buf ! off, buf ! (off + 1)] :: u16)
        in if length buf < off + 2 + len then Ok (None, off)
           else
             let start = off + 2; end' = start + len
             in if len = 0 then Ok (Some [], end')
                else
                  let bs = subslice buf start end';
                      text = (if last bs = 0 then take (length bs - 1) bs else bs)
                  in Ok (Some (from_utf8_lossy text), end'))"

definition write_lp_string :: "bytes \<Rightarrow> rstring \<Rightarrow> bytes" where
  "write_lp_string out s =
     (let len = length s + 1
      in out @ to_be_bytes (word_of_nat len :: u16) @ as_bytes s @ [0])"

section \<open>Key-method-2 packets\<close>

definition ClientKeyMethod2_try_parse :: "bytes \<Rightarrow> ClientKeyMethod2 Pop result" where
  "ClientKeyMethod2_try_parse buf =
     (if length buf < 117 then Ok NeedMore
      else if subslice buf 0 4 \<noteq> [0, 0, 0, 0] then
        bail ''key-method 2: expected 4 zero bytes''
      else if buf ! 4 \<noteq> KEY_METHOD_2 then
        Err (Bail ''unsupported key_method'' [unat (buf ! 4)])
      else
        let pre_master = subslice buf 5 (5 + PRE_MASTER_LEN);
            random1 = subslice buf 53 (53 + RANDOM_LEN);
            random2 = subslice buf 85 (85 + RANDOM_LEN);
            off = 117
        in and_then (read_lp_string buf off) (\<lambda>(options, off).
           case options of None \<Rightarrow> Ok NeedMore | Some options \<Rightarrow>
           and_then (read_lp_string buf off) (\<lambda>(username, off).
           case username of None \<Rightarrow> Ok NeedMore | Some username \<Rightarrow>
           and_then (read_lp_string buf off) (\<lambda>(password, off).
           case password of None \<Rightarrow> Ok NeedMore | Some password \<Rightarrow>
           and_then (read_lp_string buf off) (\<lambda>(peer_info, off).
           case peer_info of None \<Rightarrow> Ok NeedMore | Some peer_info \<Rightarrow>
             Ok (Ready
               \<lparr>km_pre_master = pre_master, km_random1 = random1, km_random2 = random2,
                km_options = options, km_username = username, km_password = password,
                km_peer_info = peer_info\<rparr> off))))))"

record ServerKeyMethod2 =
  sk_random1 :: bytes
  sk_random2 :: bytes
  sk_options :: rstring
  sk_username :: rstring
  sk_password :: rstring
  sk_peer_info :: rstring

definition ServerKeyMethod2_encode :: "ServerKeyMethod2 \<Rightarrow> bytes" where
  "ServerKeyMethod2_encode self =
     (let out = [0, 0, 0, 0] @ [KEY_METHOD_2] @ sk_random1 self @ sk_random2 self;
          out = write_lp_string out (sk_options self);
          out = write_lp_string out (sk_username self);
          out = write_lp_string out (sk_password self);
          out = write_lp_string out (sk_peer_info self)
      in out)"

section \<open>NUL-terminated messages\<close>

definition try_pop_ascii :: "bytes \<Rightarrow> rstring Pop" where
  "try_pop_ascii buf =
     (case position (\<lambda>b. b = 0) buf of
        Some idx \<Rightarrow> Ready (from_utf8_lossy (take idx buf)) (idx + 1)
      | None \<Rightarrow> NeedMore)"

section \<open>Announced strings\<close>

definition build_options_string :: "u16 \<Rightarrow> u16 \<Rightarrow> rstring" where
  "build_options_string link_mtu tun_mtu =
     ''V4,dev-type tun,link-mtu '' @ show_dec (unat link_mtu) @ '',tun-mtu '' @ show_dec (unat tun_mtu)
     @ '',proto UDPv4,cipher AES-256-GCM,auth SHA256,keysize 256,key-method 2,tls-server''"

datatype IvProto = REQUEST_PUSH | TLS_KEY_EXPORT | AUTH_PENDING_KW | NCP_P2P | DNS_OPTION | CC_EXIT_NOTIFY

fun IvProto_bits :: "IvProto \<Rightarrow> u32" where
  "IvProto_bits REQUEST_PUSH = push_bit 2 1"
| "IvProto_bits TLS_KEY_EXPORT = push_bit 3 1"
| "IvProto_bits AUTH_PENDING_KW = push_bit 4 1"
| "IvProto_bits NCP_P2P = push_bit 5 1"
| "IvProto_bits DNS_OPTION = push_bit 6 1"
| "IvProto_bits CC_EXIT_NOTIFY = push_bit 7 1"

definition build_peer_info :: rstring where
  "build_peer_info =
     (let proto = IvProto_bits REQUEST_PUSH OR IvProto_bits CC_EXIT_NOTIFY
      in ''IV_VER=javs-0.1.0'' @ [CHR 0x0A] @ ''IV_PLAT=server'' @ [CHR 0x0A]
         @ ''IV_PROTO='' @ show_dec (unat proto) @ [CHR 0x0A]
         @ ''IV_CIPHERS=AES-256-GCM'' @ [CHR 0x0A])"

section \<open>Length-prefixed strings: lemmas\<close>

text \<open>The strings a length prefix can carry: UTF-8 and, with the NUL, below 64 KiB.\<close>

definition lp_ok :: "rstring \<Rightarrow> bool" where
  "lp_ok s \<longleftrightarrow> utf8_valid (as_bytes s) \<and> length s + 1 < 2 ^ 16"

lemma write_lp_string_out: "write_lp_string out s = out @ write_lp_string [] s"
  by (simp add: write_lp_string_def Let_def)

lemma length_write_lp_string [wire_len]: "length (write_lp_string [] s) = length s + 3"
  by (simp add: write_lp_string_def)

lemma nth_prefix: "i < length ys \<Longrightarrow> (xs @ ys @ zs) ! (length xs + i) = ys ! i"
  by (simp add: nth_append)

lemma be_pair: "[(to_be_bytes (w :: u16)) ! 0, to_be_bytes w ! 1] = to_be_bytes w"
  by (rule nth_equalityI) (auto simp: less_Suc_eq)

lemma read_write_lp_string:
  assumes "lp_ok s" "off = length pre"
  shows "read_lp_string (pre @ write_lp_string [] s @ post) off = Ok (Some s, off + length s + 3)"
proof -
  let ?len = "word_of_nat (length s + 1) :: u16"
  let ?buf = "pre @ write_lp_string [] s @ post"
  have len: "unat ?len = length s + 1"
    using assms(1) unfolding unat_of_nat by (simp add: lp_ok_def)
  have w: "write_lp_string [] s = to_be_bytes ?len @ as_bytes s @ [0]"
    by (simp add: write_lp_string_def Let_def)
  have "?buf ! off = to_be_bytes ?len ! 0" "?buf ! (off + 1) = to_be_bytes ?len ! 1"
    using nth_prefix [of 0 "write_lp_string [] s" pre post] nth_prefix [of 1 "write_lp_string [] s" pre post]
    unfolding assms(2) w by (simp_all add: nth_append)
  then have hd: "(from_be_bytes [?buf ! off, ?buf ! (off + 1)] :: u16) = ?len"
    by (simp only: be_pair from_to_be)
  have sl: "subslice ?buf (off + 2) (off + 2 + (length s + 1)) = as_bytes s @ [0]"
    unfolding assms(2) w by (simp add: subslice_def)
  show ?thesis
    unfolding read_lp_string_def hd len Let_def sl
    using assms by (simp add: length_write_lp_string from_utf8_lossy_id lp_ok_def)
qed

lemma read_lp_string_append:
  assumes "off + 2 \<le> length buf"
    and "off + 2 + unat (from_be_bytes [buf ! off, buf ! (off + 1)] :: u16) \<le> length buf"
  shows "read_lp_string (buf @ c) off = read_lp_string buf off"
proof -
  have "(buf @ c) ! off = buf ! off" "(buf @ c) ! (off + 1) = buf ! (off + 1)"
    using assms(1) by (simp_all add: nth_append)
  then show ?thesis
    unfolding read_lp_string_def Let_def using assms by (simp add: subslice_append_left)
qed

lemma read_lp_string_SomeD:
  assumes "read_lp_string buf off = Ok (Some s, off')"
  shows "off + 2 \<le> length buf \<and> off' = off + 2 + unat (from_be_bytes [buf ! off, buf ! (off + 1)] :: u16) \<and>
         off' \<le> length buf"
  using assms by (simp add: read_lp_string_def Let_def split: if_splits)

lemma read_lp_string_stable:
  assumes "read_lp_string buf off = Ok (Some s, off')"
  shows "read_lp_string (buf @ c) off = Ok (Some s, off') \<and> off < off' \<and> off' \<le> length buf"
  using read_lp_string_SomeD [OF assms] read_lp_string_append [of off buf c] assms by simp

lemma read_lp_string_total: "\<exists>r. read_lp_string buf off = Ok r"
  by (simp add: read_lp_string_def Let_def)

section \<open>NUL-terminated messages: the stream interface\<close>

definition ascii_encode :: "rstring \<Rightarrow> bytes" where
  "ascii_encode m = as_bytes m @ [0]"

definition ascii_ok :: "rstring \<Rightarrow> bool" where
  "ascii_ok m \<longleftrightarrow> utf8_valid (as_bytes m) \<and> 0 \<notin> set (as_bytes m)"

lemma try_pop_ascii_Ready:
  "try_pop_ascii b = Ready m n \<longleftrightarrow>
     (\<exists>i. position (\<lambda>b. b = 0) b = Some i \<and> n = i + 1 \<and> m = from_utf8_lossy (take i b))"
  by (auto simp: try_pop_ascii_def split: option.splits)

interpretation msgs: stream_codec "\<lambda>b. Ok (try_pop_ascii b)" ascii_encode ascii_ok
proof unfold_locales
  fix b m n c
  assume "(Ok (try_pop_ascii b) :: rstring Pop result) = Ok (Ready m n)"
  then show "0 < n \<and> n \<le> length b"
    by (auto simp: try_pop_ascii_Ready dest: position_Some)
next
  fix b m n c
  assume "(Ok (try_pop_ascii b) :: rstring Pop result) = Ok (Ready m n)"
  then show "(Ok (try_pop_ascii (b @ c)) :: rstring Pop result) = Ok (Ready m n)"
    by (fastforce simp: try_pop_ascii_Ready position_append dest: position_Some)
next
  fix m rest
  assume ok: "ascii_ok m"
  then have "list_all (\<lambda>b. b \<noteq> 0) (as_bytes m)" by (auto simp: ascii_ok_def list_all_iff)
  from position_first [OF this, of 0 rest] ok
  show "(Ok (try_pop_ascii (ascii_encode m @ rest)) :: rstring Pop result) = Ok (Ready m (length (ascii_encode m)))"
    by (simp add: try_pop_ascii_def ascii_encode_def ascii_ok_def from_utf8_lossy_id)
qed simp

section \<open>Key-method-2: the stream interface\<close>

text \<open>The client's side of the format, as the source's round-trip test lays it out.\<close>

definition ClientKeyMethod2_encode :: "ClientKeyMethod2 \<Rightarrow> bytes" where
  "ClientKeyMethod2_encode km =
     (let buf = [0, 0, 0, 0] @ [KEY_METHOD_2] @ km_pre_master km @ km_random1 km @ km_random2 km;
          buf = write_lp_string buf (km_options km);
          buf = write_lp_string buf (km_username km);
          buf = write_lp_string buf (km_password km);
          buf = write_lp_string buf (km_peer_info km)
      in buf)"

definition km_ok :: "ClientKeyMethod2 \<Rightarrow> bool" where
  "km_ok km \<longleftrightarrow>
     length (km_pre_master km) = 48 \<and> length (km_random1 km) = 32 \<and> length (km_random2 km) = 32 \<and>
     lp_ok (km_options km) \<and> lp_ok (km_username km) \<and> lp_ok (km_password km) \<and> lp_ok (km_peer_info km)"

text \<open>One length-prefixed read inside the parser, and a successful parse as four of them in a row
  behind the fixed part.\<close>

lemma lp_then_Ready:
  "and_then (read_lp_string b off) (\<lambda>(x, off). case x of None \<Rightarrow> Ok NeedMore | Some v \<Rightarrow> f v off) = Ok (Ready m n)
     \<longleftrightarrow> (\<exists>v off'. read_lp_string b off = Ok (Some v, off') \<and> f v off' = Ok (Ready m n))"
  by (auto simp: and_then_eq_Ok split: option.splits)

lemma lp_then_Err:
  "and_then (read_lp_string b off) (\<lambda>(x, off). case x of None \<Rightarrow> Ok NeedMore | Some v \<Rightarrow> f v off) = Err e
     \<longleftrightarrow> (\<exists>v off'. read_lp_string b off = Ok (Some v, off') \<and> f v off' = Err e)"
  using read_lp_string_total [of b off] by (auto split: option.splits)

lemma try_parse_Ready:
  "ClientKeyMethod2_try_parse b = Ok (Ready km n) \<longleftrightarrow>
     117 \<le> length b \<and> subslice b 0 4 = [0, 0, 0, 0] \<and> b ! 4 = KEY_METHOD_2 \<and>
     km_pre_master km = subslice b 5 53 \<and> km_random1 km = subslice b 53 85 \<and>
     km_random2 km = subslice b 85 117 \<and>
     (\<exists>o1 o2 o3. read_lp_string b 117 = Ok (Some (km_options km), o1) \<and>
        read_lp_string b o1 = Ok (Some (km_username km), o2) \<and>
        read_lp_string b o2 = Ok (Some (km_password km), o3) \<and>
        read_lp_string b o3 = Ok (Some (km_peer_info km), n))"
  unfolding ClientKeyMethod2_try_parse_def Let_def PRE_MASTER_LEN_def RANDOM_LEN_def
  by (cases km) (auto simp: lp_then_Ready not_less; metis)

lemma try_parse_Ready_stable:
  assumes "ClientKeyMethod2_try_parse b = Ok (Ready km n)"
  shows "ClientKeyMethod2_try_parse (b @ c) = Ok (Ready km n) \<and> 0 < n \<and> n \<le> length b"
proof -
  from assms obtain o1 o2 o3 where len: "117 \<le> length b"
    and r1: "read_lp_string b 117 = Ok (Some (km_options km), o1)"
    and r2: "read_lp_string b o1 = Ok (Some (km_username km), o2)"
    and r3: "read_lp_string b o2 = Ok (Some (km_password km), o3)"
    and r4: "read_lp_string b o3 = Ok (Some (km_peer_info km), n)"
    unfolding try_parse_Ready by blast
  note st = read_lp_string_stable [OF r1, of c] read_lp_string_stable [OF r2, of c]
    read_lp_string_stable [OF r3, of c] read_lp_string_stable [OF r4, of c]
  have "(b @ c) ! 4 = b ! 4" using len by (simp add: nth_append)
  then have "ClientKeyMethod2_try_parse (b @ c) = Ok (Ready km n)"
    using assms len st unfolding try_parse_Ready by (auto simp: subslice_append_left)
  with st show ?thesis by simp
qed

lemma try_parse_Err_stable:
  assumes "ClientKeyMethod2_try_parse b = Err e"
  shows "ClientKeyMethod2_try_parse (b @ c) = Err e"
proof -
  from assms have len: "117 \<le> length b"
    by (auto simp: ClientKeyMethod2_try_parse_def split: if_splits)
  have "(b @ c) ! 4 = b ! 4" using len by (simp add: nth_append)
  moreover have "subslice b 0 4 \<noteq> [0, 0, 0, 0] \<or> b ! 4 \<noteq> KEY_METHOD_2"
    using assms by (auto simp: ClientKeyMethod2_try_parse_def Let_def lp_then_Err split: if_splits)
  ultimately show ?thesis
    using assms len by (auto simp: ClientKeyMethod2_try_parse_def subslice_append_left split: if_splits)
qed

lemma try_parse_encode:
  assumes "km_ok km"
  shows "ClientKeyMethod2_try_parse (ClientKeyMethod2_encode km @ rest) =
         Ok (Ready km (length (ClientKeyMethod2_encode km)))"
proof -
  let ?fix = "[0, 0, 0, 0] @ [KEY_METHOD_2] @ km_pre_master km @ km_random1 km @ km_random2 km"
  let ?o = "write_lp_string [] (km_options km)" and ?u = "write_lp_string [] (km_username km)"
    and ?p = "write_lp_string [] (km_password km)" and ?i = "write_lp_string [] (km_peer_info km)"
  have enc: "ClientKeyMethod2_encode km = ?fix @ ?o @ ?u @ ?p @ ?i"
    unfolding ClientKeyMethod2_encode_def Let_def
    by (simp add: write_lp_string_out [of "_ # _"] write_lp_string_out [of "_ @ _"])
  let ?b = "ClientKeyMethod2_encode km @ rest"
  have fix_len: "length ?fix = 117" using assms by (simp add: km_ok_def)
  have r1: "read_lp_string ?b 117 = Ok (Some (km_options km), 117 + length ?o)"
    using read_write_lp_string [of "km_options km" 117 ?fix "?u @ ?p @ ?i @ rest"] assms fix_len
    unfolding enc by (simp add: km_ok_def length_write_lp_string)
  have r2: "read_lp_string ?b (117 + length ?o) = Ok (Some (km_username km), 117 + length ?o + length ?u)"
    using read_write_lp_string [of "km_username km" "117 + length ?o" "?fix @ ?o" "?p @ ?i @ rest"] assms fix_len
    unfolding enc by (simp add: km_ok_def length_write_lp_string)
  have r3: "read_lp_string ?b (117 + length ?o + length ?u) =
      Ok (Some (km_password km), 117 + length ?o + length ?u + length ?p)"
    using read_write_lp_string [of "km_password km" "117 + length ?o + length ?u" "?fix @ ?o @ ?u" "?i @ rest"]
      assms fix_len
    unfolding enc by (simp add: km_ok_def length_write_lp_string)
  have r4: "read_lp_string ?b (117 + length ?o + length ?u + length ?p) =
      Ok (Some (km_peer_info km), 117 + length ?o + length ?u + length ?p + length ?i)"
    using read_write_lp_string [of "km_peer_info km" "117 + length ?o + length ?u + length ?p"
        "?fix @ ?o @ ?u @ ?p" rest] assms fix_len
    unfolding enc by (simp add: km_ok_def length_write_lp_string)
  have "length (ClientKeyMethod2_encode km) = 117 + length ?o + length ?u + length ?p + length ?i"
    unfolding enc length_append [of ?fix] fix_len by simp
  moreover have "subslice ?b 0 4 = [0, 0, 0, 0]" "?b ! 4 = KEY_METHOD_2"
    "subslice ?b 5 53 = km_pre_master km" "subslice ?b 53 85 = km_random1 km"
    "subslice ?b 85 117 = km_random2 km"
    using assms unfolding enc km_ok_def by (simp_all add: subslice_def)
  ultimately show ?thesis
    unfolding try_parse_Ready using r1 r2 r3 r4 by (simp add: enc)
qed

interpretation km2: stream_codec ClientKeyMethod2_try_parse ClientKeyMethod2_encode km_ok
  by unfold_locales (blast dest: try_parse_Ready_stable try_parse_Err_stable intro: try_parse_encode)+

section \<open>The server's own strings fit their length prefix\<close>

lemma show_dec_ascii: "ascii (as_bytes (show_dec n))"
proof -
  have "(word_of_nat (of_char c) :: u8) < 0x80" if "c \<in> set (show_dec n)" for c
    using show_dec_digits [of n] that by (auto simp: word_less_nat_alt unat_of_nat)
  then show ?thesis by (auto simp: ascii_def as_bytes_def)
qed

lemma show_dec_length: "n < 10 ^ k \<Longrightarrow> 0 < k \<Longrightarrow> length (show_dec n) \<le> k"
proof (induction n arbitrary: k rule: show_dec.induct)
  case (1 n)
  show ?case
  proof (cases "n < 10")
    case True
    with "1.prems" show ?thesis by (subst show_dec.simps) simp
  next
    case False
    with "1.prems"(1) obtain j where k: "k = Suc j" "0 < j"
      by (cases k; cases "k - 1") auto
    then have "n div 10 < 10 ^ j" using "1.prems"(1) by (simp add: less_mult_imp_div_less mult.commute)
    with "1.IH" False k show ?thesis by (subst show_dec.simps) simp
  qed
qed

lemma show_u16_length: "length (show_dec (unat (w :: u16))) \<le> 5"
proof -
  have "unat w < 2 ^ 16" using unsigned_less [of w] by simp
  then show ?thesis by (intro show_dec_length) simp_all
qed

lemma build_options_string_ok: "lp_ok (build_options_string l t)"
  using show_u16_length [of l] show_u16_length [of t]
  by (simp add: lp_ok_def build_options_string_def ascii_valid show_dec_ascii)

lemma build_peer_info_ok: "lp_ok build_peer_info"
proof -
  have "length (show_dec 132) \<le> 3" by (intro show_dec_length) simp_all
  then show ?thesis
    by (simp add: lp_ok_def build_peer_info_def Let_def ascii_valid show_dec_ascii)
qed

section \<open>Properties\<close>

text \<open>C23: the server reads back a client's key-method-2 packet exactly (pre-master, both randoms,
  all four strings) and consumes exactly the bytes of that packet, whatever follows it in the
  buffer.\<close>

theorem key_method_2_roundtrip:
  assumes "km_ok km"
  shows "ClientKeyMethod2_try_parse (ClientKeyMethod2_encode km @ rest) =
         Ok (Ready km (length (ClientKeyMethod2_encode km)))"
  using assms by (rule km2.enc_parse)

definition sample_km :: ClientKeyMethod2 where
  "sample_km = \<lparr>km_pre_master = replicate 48 0xAB, km_random1 = replicate 32 0xCD,
     km_random2 = replicate 32 0xEF, km_options = ''V4,proto UDPv4,key-method 2,tls-client'',
     km_username = [], km_password = [], km_peer_info = ''IV_VER=2.6.0''\<rparr>"

lemma sample_km_ok: "km_ok sample_km"
  by (simp add: km_ok_def sample_km_def lp_ok_def ascii_valid)

theorem key_method_2_roundtrip_witness:
  "km_ok sample_km \<and>
   ClientKeyMethod2_try_parse (ClientKeyMethod2_encode sample_km @ [1, 2]) =
     Ok (Ready sample_km (length (ClientKeyMethod2_encode sample_km)))"
  using sample_km_ok key_method_2_roundtrip [OF sample_km_ok, of "[1, 2]"] by blast

text \<open>A key-method-2 packet that has only partly arrived is never an error and never a wrong
  message: every strict prefix makes the parser wait for more.\<close>

theorem key_method_2_partial:
  assumes "km_ok km" and "k < length (ClientKeyMethod2_encode km)"
  shows "ClientKeyMethod2_try_parse (take k (ClientKeyMethod2_encode km)) = Ok NeedMore"
  using assms by (rule km2.prefix_needs_more)

theorem key_method_2_partial_witness:
  "km_ok sample_km \<and> 50 < length (ClientKeyMethod2_encode sample_km) \<and>
   ClientKeyMethod2_try_parse (take 50 (ClientKeyMethod2_encode sample_km)) = Ok NeedMore"
proof -
  have "50 < length (ClientKeyMethod2_encode sample_km)"
    by (simp add: sample_km_def ClientKeyMethod2_encode_def Let_def write_lp_string_def)
  with sample_km_ok key_method_2_partial [OF sample_km_ok this] show ?thesis by blast
qed

text \<open>C28: NUL-terminated control messages survive fragmentation: however the TLS stream cuts
  a sequence of messages into pieces, popping after each piece yields exactly those messages in
  order, with nothing left in the buffer.\<close>

theorem ascii_messages_fragmentation:
  assumes "list_all ascii_ok ms" and "concat pieces = concat (map ascii_encode ms)" and "pieces \<noteq> []"
  shows "pop_pieces (\<lambda>b. Ok (try_pop_ascii b)) [] pieces = (ms, [])"
proof -
  have "pop_pieces (\<lambda>b. Ok (try_pop_ascii b)) [] pieces =
      pop_all (\<lambda>b. Ok (try_pop_ascii b)) (concat (map ascii_encode ms) @ [])"
    using msgs.pieces_whole [of "[]" pieces] assms by simp
  also have "\<dots> = (ms, [])"
  proof -
    have "pop_all (\<lambda>b. Ok (try_pop_ascii b)) [] = ([], [])"
      by (rule msgs.pop_all_stop) (simp add: try_pop_ascii_def)
    then show ?thesis using msgs.pop_all_encoded [OF assms(1), of "[]"] by simp
  qed
  finally show ?thesis .
qed

theorem ascii_messages_fragmentation_witness:
  "list_all ascii_ok [''PUSH_REQUEST'', ''EXIT''] \<and>
   pop_pieces (\<lambda>b. Ok (try_pop_ascii b)) [] [as_bytes ''PUSH_REQ'', as_bytes ''UEST'' @ [0] @ as_bytes ''EX'', as_bytes ''IT'' @ [0]]
     = ([''PUSH_REQUEST'', ''EXIT''], [])"
proof -
  have ok: "list_all ascii_ok [''PUSH_REQUEST'', ''EXIT'']"
    by (simp add: ascii_ok_def ascii_valid)
  show ?thesis
    using ok ascii_messages_fragmentation [OF ok, of "[as_bytes ''PUSH_REQ'', as_bytes ''UEST'' @ [0] @ as_bytes ''EX'', as_bytes ''IT'' @ [0]]"]
    by (simp add: ascii_encode_def)
qed

text \<open>The server's key-method-2 reply is readable: behind the five header octets and the two
  32-octet randoms, reading length-prefixed strings gives the announced options, the empty user
  name and password and the peer info, and ends exactly at the end of the reply.\<close>

theorem server_reply_readable:
  fixes link_mtu tun_mtu :: u16
  assumes "length r1 = 32" and "length r2 = 32"
  defines "reply \<equiv> ServerKeyMethod2_encode
    \<lparr>sk_random1 = r1, sk_random2 = r2, sk_options = build_options_string link_mtu tun_mtu,
     sk_username = [], sk_password = [], sk_peer_info = build_peer_info\<rparr>"
  shows "take 69 reply = [0, 0, 0, 0, 2] @ r1 @ r2 \<and>
    (\<exists>o1 o2 o3. read_lp_string reply 69 = Ok (Some (build_options_string link_mtu tun_mtu), o1) \<and>
       read_lp_string reply o1 = Ok (Some [], o2) \<and> read_lp_string reply o2 = Ok (Some [], o3) \<and>
       read_lp_string reply o3 = Ok (Some build_peer_info, length reply))"
proof -
  let ?fix = "[0, 0, 0, 0] @ [KEY_METHOD_2] @ r1 @ r2"
  let ?o = "write_lp_string [] (build_options_string link_mtu tun_mtu)" and ?e = "write_lp_string [] []"
    and ?i = "write_lp_string [] build_peer_info"
  have enc: "reply = ?fix @ ?o @ ?e @ ?e @ ?i"
    unfolding reply_def ServerKeyMethod2_encode_def Let_def
    by (simp add: write_lp_string_out [of "_ # _"] write_lp_string_out [of "_ @ _"])
  have e: "lp_ok []" by (simp add: lp_ok_def)
  have fix_len: "length ?fix = 69" using assms(1,2) by simp
  note rd = read_write_lp_string [OF build_options_string_ok, of 69 ?fix link_mtu tun_mtu "?e @ ?e @ ?i"]
    read_write_lp_string [OF e, of "69 + length ?o" "?fix @ ?o" "?e @ ?i"]
    read_write_lp_string [OF e, of "69 + length ?o + 3" "?fix @ ?o @ ?e" "?i"]
    read_write_lp_string [OF build_peer_info_ok, of "69 + length ?o + 6" "?fix @ ?o @ ?e @ ?e" "[]"]
  have "take 69 reply = ?fix" unfolding enc using fix_len by simp
  moreover have "length reply = 69 + length ?o + 6 + length ?i"
    unfolding enc length_append [of ?fix] fix_len by (simp add: length_write_lp_string)
  ultimately show ?thesis
    unfolding enc using rd fix_len by (simp add: KEY_METHOD_2_def length_write_lp_string)
qed

theorem server_reply_readable_witness:
  "take 69 (ServerKeyMethod2_encode
     \<lparr>sk_random1 = replicate 32 1, sk_random2 = replicate 32 2, sk_options = build_options_string 1542 1500,
      sk_username = [], sk_password = [], sk_peer_info = build_peer_info\<rparr>)
   = [0, 0, 0, 0, 2] @ replicate 32 1 @ replicate 32 2"
  using server_reply_readable [of "replicate 32 1" "replicate 32 2" 1542 1500] by simp

end
