(* ===== verification/Static_Key.thy ===== *)
theory Static_Key
  imports Rust_Str
begin

text \<open>
  The static-key file parser of \<open>src/src/static_key.rs\<close>.

  The \<open>hex\<close> crate's \<open>decode\<close> is a parameter \<open>hex_decode\<close>; what the code relies on is
  \<open>hex_decode_law\<close>: two hexadecimal digits per octet in, that octet out, and success only on
  input twice as long as its result. Reading the file is the parameter \<open>read_to_string\<close>.
\<close>

definition STATIC_KEY_LEN :: nat where
  "STATIC_KEY_LEN = 256"

text \<open>One iteration of the loop over the lines: the flag \<open>inside\<close> and the digits collected.\<close>

definition key_line :: "rstring \<Rightarrow> bool \<times> rstring \<Rightarrow> bool \<times> rstring" where
  "key_line raw st =
     (let (inside, hex_buf) = st; line = trim raw
      in if starts_with line ''-----BEGIN'' then (True, hex_buf)
         else if starts_with line ''-----END'' then (False, hex_buf)
         else if inside \<and> line \<noteq> [] \<and> \<not> starts_with line ''#'' then (inside, hex_buf @ line)
         else (inside, hex_buf))"

definition parse_static_key_text :: "(rstring \<Rightarrow> bytes option) \<Rightarrow> rstring \<Rightarrow> bytes result" where
  "parse_static_key_text hex_decode text =
     (let hex_buf = snd (fold key_line (lines text) (False, []))
      in if length hex_buf \<noteq> STATIC_KEY_LEN * 2 then
           Err (Bail ''OpenVPN static key: hex chars'' [STATIC_KEY_LEN * 2, length hex_buf])
         else
           and_then (ok_or (hex_decode hex_buf) (Bail ''decoding key hex'' [])) (\<lambda>bs.
             if length bs \<noteq> STATIC_KEY_LEN then Err (Panic ''copy_from_slice'') else Ok bs))"

definition parse_static_key_file ::
  "(rstring \<Rightarrow> rstring option) \<Rightarrow> (rstring \<Rightarrow> bytes option) \<Rightarrow> rstring \<Rightarrow> bytes result" where
  "parse_static_key_file read_to_string hex_decode path =
     and_then (ok_or (read_to_string path) (Bail ''reading'' [])) (\<lambda>text.
       parse_static_key_text hex_decode text)"

section \<open>Hexadecimal text\<close>

definition hex_digit :: "nat \<Rightarrow> char" where
  "hex_digit n = (if n < 10 then char_of (48 + n) else char_of (87 + n))"

text \<open>\<open>format!("{:02x}", b)\<close>.\<close>

definition hex2 :: "u8 \<Rightarrow> rstring" where
  "hex2 b = [hex_digit (unat b div 16), hex_digit (unat b mod 16)]"

definition hex_decode_law :: "(rstring \<Rightarrow> bytes option) \<Rightarrow> bool" where
  "hex_decode_law d \<longleftrightarrow>
     (\<forall>bs. d (concat (map hex2 bs)) = Some bs) \<and>
     (\<forall>s bs. d s = Some bs \<longrightarrow> length s = 2 * length bs)"

lemma hex_digit_code:
  "n < 16 \<Longrightarrow> (of_char (hex_digit n) :: nat) = (if n < 10 then 48 + n else 87 + n)"
  by (simp add: hex_digit_def)

lemma hex_digit_graphic: "n < 16 \<Longrightarrow> graphic (hex_digit n)"
  by (auto simp: graphic_def hex_digit_code)

lemma length_hex: "length (concat (map hex2 bs)) = 2 * length bs"
  by (induction bs) (simp_all add: hex2_def)

lemma hex_char: "c \<in> set (concat (map hex2 bs)) \<Longrightarrow> \<exists>n < 16. c = hex_digit n"
proof -
  assume "c \<in> set (concat (map hex2 bs))"
  then obtain b where "c \<in> set (hex2 b)" by auto
  moreover have "unat b div 16 < 16" "unat b mod 16 < 16"
    using unat_u8_less [of b] by (simp_all add: less_mult_imp_div_less)
  ultimately show ?thesis unfolding hex2_def by (metis empty_iff empty_set set_ConsD)
qed

lemma hex_char_code:
  "c \<in> set (concat (map hex2 bs)) \<Longrightarrow>
     48 \<le> (of_char c :: nat) \<and> (of_char c :: nat) \<le> 57 \<or> 97 \<le> (of_char c :: nat) \<and> (of_char c :: nat) \<le> 102"
  by (drule hex_char) (auto simp: hex_digit_code split: if_splits)

lemma hex_char_plain:
  assumes "c \<in> set (concat (map hex2 bs))"
  shows "graphic c" "c \<noteq> CHR ''-''" "c \<noteq> CHR ''#''" "c \<noteq> CHR 0x0A" "c \<noteq> CHR 0x0D"
  using hex_char_code [OF assms] by (auto simp: graphic_def)

section \<open>The file format written by \<open>openvpn --genkey\<close>\<close>

text \<open>As the source's own test builds it: a BEGIN line, the octets in lines of 16, an END line.\<close>

definition newline :: char where
  "newline = CHR 0x0A"

definition build_pem :: "bytes \<Rightarrow> rstring" where
  "build_pem bs =
     ''-----BEGIN OpenVPN Static key V1-----'' @ [newline]
     @ concat (map (\<lambda>chunk. concat (map hex2 chunk) @ [newline]) (chunks 16 bs))
     @ ''-----END OpenVPN Static key V1-----'' @ [newline]"

lemma key_line_hex:
  assumes "bs \<noteq> []"
  shows "key_line (concat (map hex2 bs)) (True, acc) = (True, acc @ concat (map hex2 bs))"
proof -
  let ?h = "concat (map hex2 bs)"
  have ne: "?h \<noteq> []" using assms by (cases bs) (simp_all add: hex2_def)
  then have hd: "hd ?h \<in> set ?h" and last: "last ?h \<in> set ?h" by (simp_all del: set_concat)
  have g: "graphic c \<and> c \<noteq> CHR ''-'' \<and> c \<noteq> CHR ''#''" if "c \<in> set ?h" for c
    using hex_char_plain [OF that] by blast
  have "trim ?h = ?h" using g [OF hd] g [OF last] by (intro trim_graphic) simp_all
  moreover have "?h = hd ?h # tl ?h" using ne by simp
  then have "\<not> starts_with ?h (CHR ''-'' # s)" "\<not> starts_with ?h ''#''" for s
    using g [OF hd] by (auto simp: starts_with_def) (metis list.sel(1) take_Suc_Cons)+
  ultimately show ?thesis using ne by (simp add: key_line_def)
qed

lemma key_line_begin: "key_line ''-----BEGIN OpenVPN Static key V1-----'' st = (True, snd st)"
proof -
  have "trim ''-----BEGIN OpenVPN Static key V1-----'' = ''-----BEGIN OpenVPN Static key V1-----''"
    by (rule trim_graphic) (simp_all add: graphic_def)
  then show ?thesis by (simp add: key_line_def starts_with_def case_prod_beta)
qed

lemma key_line_end: "key_line ''-----END OpenVPN Static key V1-----'' st = (False, snd st)"
proof -
  have "trim ''-----END OpenVPN Static key V1-----'' = ''-----END OpenVPN Static key V1-----''"
    by (rule trim_graphic) (simp_all add: graphic_def)
  then show ?thesis by (simp add: key_line_def starts_with_def case_prod_beta)
qed

lemma hex_no_newline: "CHR 0x0A \<notin> set (concat (map hex2 bs))" "CHR 0x0D \<notin> set (concat (map hex2 bs))"
  using hex_char_plain(4,5) by blast+

lemma strip_cr_id: "CHR 0x0D \<notin> set l \<Longrightarrow> strip_cr l = l"
  unfolding strip_cr_def using last_in_set [of l] by metis

lemma hex_lines_collect:
  "\<forall>c \<in> set cs. c \<noteq> [] \<Longrightarrow>
   fold key_line (lines (concat (map (\<lambda>chunk. concat (map hex2 chunk) @ [newline]) cs) @ rest)) (True, acc) =
   fold key_line (lines rest) (True, acc @ concat (map hex2 (concat cs)))"
proof (induction cs arbitrary: acc)
  case Nil
  then show ?case by simp
next
  case (Cons c cs)
  then have "lines (concat (map hex2 c) @ CHR 0x0A # t) = concat (map hex2 c) # lines t" for t
    using lines_newline [OF hex_no_newline(1)] strip_cr_id [OF hex_no_newline(2)] by simp
  with Cons show ?case by (simp add: newline_def key_line_hex)
qed

lemma build_pem_digits:
  "fold key_line (lines (build_pem bs)) (False, []) = (False, concat (map hex2 bs))"
proof -
  have "lines (''-----BEGIN OpenVPN Static key V1-----'' @ [newline] @ t) =
      ''-----BEGIN OpenVPN Static key V1-----'' # lines t" for t
    using lines_newline [of "''-----BEGIN OpenVPN Static key V1-----''" t]
    by (simp add: newline_def strip_cr_id)
  moreover have "lines (''-----END OpenVPN Static key V1-----'' @ [newline]) =
      [''-----END OpenVPN Static key V1-----'']"
    using lines_newline [of "''-----END OpenVPN Static key V1-----''" "[]"]
    by (simp add: newline_def strip_cr_id)
  moreover have "\<forall>c \<in> set (chunks 16 bs). c \<noteq> []" by (blast dest: chunks_bound)
  ultimately show ?thesis
    unfolding build_pem_def
    by (simp only: fold_simps key_line_begin key_line_end hex_lines_collect snd_conv
        concat_chunks append_Nil zero_less_numeral)
qed

section \<open>Comments and blank lines\<close>

lemma lines_append:
  "t = [] \<or> last t = CHR 0x0A \<Longrightarrow> lines (t @ u) = lines t @ lines u"
proof (induction t rule: lines.induct)
  case (1 t)
  show ?case
  proof (cases "CHR 0x0A \<in> set t")
    case True
    then obtain l r where t: "t = l @ CHR 0x0A # r" "CHR 0x0A \<notin> set l" by (meson split_list_first)
    have "dropWhile (\<lambda>c. c \<noteq> CHR 0x0A) t = CHR 0x0A # r"
      using t by (induction l arbitrary: t) auto
    moreover have "r = [] \<or> last r = CHR 0x0A" using 1(2) t by (cases "r = []") auto
    ultimately have "lines (r @ u) = lines r @ lines u" using 1(1) t by blast
    then show ?thesis using lines_newline [OF t(2)] t by simp
  next
    case False
    then have "t = []" using 1(2) last_in_set by metis
    then show ?thesis by simp
  qed
qed

lemma key_line_ignored:
  "trim l = [] \<or> starts_with (trim l) ''#'' \<Longrightarrow> key_line l st = st"
  by (cases st; cases "trim l") (auto simp: key_line_def starts_with_def)

lemma comment_line_ignored:
  assumes "t = [] \<or> last t = newline" "newline \<notin> set c" "trim c = [] \<or> starts_with (trim c) ''#''"
    and "strip_cr c = c"
  shows "parse_static_key_text d (t @ c @ [newline] @ u) = parse_static_key_text d (t @ u)"
proof -
  have "lines (t @ c @ [newline] @ u) = lines t @ c # lines u"
    using lines_append [of t "c @ [newline] @ u"] lines_newline [of c u] assms
    by (simp add: newline_def)
  moreover have "lines (t @ u) = lines t @ lines u"
    using lines_append [of t u] assms(1) by (simp add: newline_def)
  ultimately show ?thesis
    using key_line_ignored [OF assms(3)] by (simp add: parse_static_key_text_def)
qed

section \<open>A decoder that meets the law\<close>

definition hex_val :: "char \<Rightarrow> nat option" where
  "hex_val c =
     (let n = of_char c
      in if 48 \<le> n \<and> n \<le> 57 then Some (n - 48)
         else if 97 \<le> n \<and> n \<le> 102 then Some (n - 87) else None)"

fun hex_decode_example :: "rstring \<Rightarrow> bytes option" where
  "hex_decode_example [] = Some []"
| "hex_decode_example [c] = None"
| "hex_decode_example (a # b # s) =
     (case (hex_val a, hex_val b, hex_decode_example s) of
        (Some x, Some y, Some bs) \<Rightarrow> Some (word_of_nat (16 * x + y) # bs)
      | _ \<Rightarrow> None)"

lemma hex_val_digit: "n < 16 \<Longrightarrow> hex_val (hex_digit n) = Some n"
  by (simp add: hex_val_def hex_digit_code)

lemma hex_decode_example_law: "hex_decode_law hex_decode_example"
proof -
  have "hex_decode_example (concat (map hex2 bs)) = Some bs" for bs
  proof (induction bs)
    case (Cons b bs)
    have "unat b div 16 < 16" using unat_u8_less [of b] by (simp add: less_mult_imp_div_less)
    moreover have "word_of_nat (16 * (unat b div 16) + unat b mod 16) = b"
      unfolding mult_div_mod_eq by simp
    ultimately show ?case using Cons by (simp add: hex2_def hex_val_digit)
  qed simp
  moreover have "length s = 2 * length bs" if "hex_decode_example s = Some bs" for s bs
    using that by (induction s arbitrary: bs rule: hex_decode_example.induct) (auto split: option.splits)
  ultimately show ?thesis by (simp add: hex_decode_law_def)
qed

section \<open>Properties\<close>

text \<open>C31: parsing the key file that holds 256 octets (a BEGIN line, 16 octets of lower-case hex
  per line, an END line) gives back those octets.\<close>

theorem static_key_roundtrip:
  assumes "hex_decode_law hex_decode" and "length km = 256"
  shows "parse_static_key_text hex_decode (build_pem km) = Ok km"
  using assms
  by (simp add: parse_static_key_text_def build_pem_digits length_hex STATIC_KEY_LEN_def hex_decode_law_def)

theorem static_key_roundtrip_witness:
  "hex_decode_law hex_decode_example \<and>
   parse_static_key_text hex_decode_example (build_pem (replicate 256 0x5A)) = Ok (replicate 256 0x5A)"
  using hex_decode_example_law static_key_roundtrip [OF hex_decode_example_law, of "replicate 256 0x5A"]
  by simp

text \<open>C32: the parser never panics and never returns a key of another size: on any text it
  returns exactly 256 octets or an error that is not a panic.\<close>

theorem static_key_length:
  assumes "hex_decode_law hex_decode"
  shows "case parse_static_key_text hex_decode text of
           Inr km \<Rightarrow> length km = 256
         | Inl e \<Rightarrow> (\<forall>msg. e \<noteq> Panic msg)"
  using assms
  by (auto simp: parse_static_key_text_def hex_decode_law_def STATIC_KEY_LEN_def Let_def ok_or_def
      split: option.splits)

theorem static_key_length_witness:
  "hex_decode_law hex_decode_example \<and>
   (case parse_static_key_text hex_decode_example ''no key here'' of
      Inr km \<Rightarrow> length km = 256 | Inl e \<Rightarrow> (\<forall>msg. e \<noteq> Panic msg))"
  using hex_decode_example_law static_key_length [OF hex_decode_example_law, of "''no key here''"] by blast

text \<open>Comment lines and blank lines can be inserted between any two lines (also inside the
  key block) without changing the result.\<close>

theorem static_key_ignores_comments:
  assumes "t = [] \<or> last t = newline" and "newline \<notin> set c" and "strip_cr c = c"
    and "trim c = [] \<or> starts_with (trim c) ''#''"
  shows "parse_static_key_text hex_decode (t @ c @ [newline] @ u) = parse_static_key_text hex_decode (t @ u)"
  using assms(1,2,4,3) by (rule comment_line_ignored)

theorem static_key_ignores_comments_witness:
  "parse_static_key_text hex_decode_example ([] @ ''# made by hand'' @ [newline] @ build_pem (replicate 256 1))
   = parse_static_key_text hex_decode_example ([] @ build_pem (replicate 256 1))"
proof -
  have "trim ''# made by hand'' = ''# made by hand''"
    by (rule trim_graphic) (simp_all add: graphic_def)
  then show ?thesis
    by (intro static_key_ignores_comments) (simp_all add: newline_def strip_cr_def starts_with_def)
qed

end
