(* ===== verification/Crates.thy ===== *)
theory Crates
  imports Prelude
begin

text \<open>
  The cryptographic crates the program calls, as one record of parameters: HMAC-SHA256 (\<open>hmac\<close>,
  \<open>sha2\<close>), HMAC-MD5 and HMAC-SHA1 (\<open>md5\<close>, \<open>sha1\<close>), the AES-256-CTR key stream (\<open>ctr\<close>, \<open>aes\<close>) and
  AES-256-GCM (\<open>aes-gcm\<close>). Nothing is assumed of them here:

  \<^item> a digest has the fixed output size of its Rust array type, so it is a word of that width;
  \<^item> \<open>apply_keystream\<close> XORs the data with a key stream that depends on key, IV and position;
  \<^item> \<open>encrypt\<close> and \<open>decrypt\<close> may fail; what the code relies on is \<open>aead_law\<close>, a hypothesis where a
    property needs it: decryption undoes encryption under the same key, nonce and associated
    data, and a ciphertext is 16 octets longer than its plaintext.
\<close>

record crypto_api =
  hmac_sha256 :: "bytes \<Rightarrow> bytes \<Rightarrow> 256 word"
  hmac_md5_digest :: "bytes \<Rightarrow> bytes \<Rightarrow> 128 word"
  hmac_sha1_digest :: "bytes \<Rightarrow> bytes \<Rightarrow> 160 word"
  aes256_ctr :: "bytes \<Rightarrow> bytes \<Rightarrow> nat \<Rightarrow> u8"
  aes_gcm_encrypt :: "bytes \<Rightarrow> bytes \<Rightarrow> bytes \<Rightarrow> bytes \<Rightarrow> bytes option"
  aes_gcm_decrypt :: "bytes \<Rightarrow> bytes \<Rightarrow> bytes \<Rightarrow> bytes \<Rightarrow> bytes option"

definition aead_law :: "crypto_api \<Rightarrow> bool" where
  "aead_law A \<longleftrightarrow>
     (\<forall>key nonce aad msg ct. aes_gcm_encrypt A key nonce aad msg = Some ct \<longrightarrow>
        length ct = length msg + 16 \<and> aes_gcm_decrypt A key nonce aad ct = Some msg)"

text \<open>\<open>mac.update(..); mac.finalize().into_bytes()\<close>.\<close>

definition hmac256_bytes :: "crypto_api \<Rightarrow> bytes \<Rightarrow> bytes \<Rightarrow> bytes" where
  "hmac256_bytes A key msg = to_be_bytes (hmac_sha256 A key msg)"

lemma length_hmac256_bytes [simp, wire_len]: "length (hmac256_bytes A key msg) = 32"
  by (simp add: hmac256_bytes_def)

text \<open>\<open>cipher.apply_keystream(&mut data)\<close>, starting at stream position \<open>i\<close>.\<close>

fun apply_keystream :: "(nat \<Rightarrow> u8) \<Rightarrow> nat \<Rightarrow> bytes \<Rightarrow> bytes" where
  "apply_keystream ks i [] = []"
| "apply_keystream ks i (b # bs) = (b XOR ks i) # apply_keystream ks (Suc i) bs"

lemma length_apply_keystream [simp, wire_len]: "length (apply_keystream ks i bs) = length bs"
  by (induction bs arbitrary: i) simp_all

lemma apply_keystream_twice [simp]: "apply_keystream ks i (apply_keystream ks i bs) = bs"
  by (induction bs arbitrary: i) (simp_all add: xor.assoc)

section \<open>An instance\<close>

text \<open>Concrete functions of the right shape (no cryptography: they only show that \<open>aead_law\<close> can
  hold, with a tag that depends on key, nonce and associated data).\<close>

definition sum_bytes :: "bytes \<Rightarrow> u8" where
  "sum_bytes bs = fold (+) bs 0"

definition example_api :: crypto_api where
  "example_api =
     \<lparr>hmac_sha256 = (\<lambda>k m. word_of_nat (unat (sum_bytes k) * 256 + unat (sum_bytes m))),
      hmac_md5_digest = (\<lambda>k m. word_of_nat (unat (sum_bytes k) * 256 + unat (sum_bytes m))),
      hmac_sha1_digest = (\<lambda>k m. word_of_nat (unat (sum_bytes k) * 256 + unat (sum_bytes m))),
      aes256_ctr = (\<lambda>k iv i. sum_bytes k + sum_bytes iv + word_of_nat i),
      aes_gcm_encrypt = (\<lambda>k n a m. Some (m @ replicate 16 (sum_bytes (k @ n @ a)))),
      aes_gcm_decrypt = (\<lambda>k n a c.
        if 16 \<le> length c \<and> drop (length c - 16) c = replicate 16 (sum_bytes (k @ n @ a))
        then Some (take (length c - 16) c) else None)\<rparr>"

lemma example_api_law: "aead_law example_api"
  by (simp add: aead_law_def example_api_def)

end
