(* ===== verification/Tls_Auth.thy ===== *)
theory Tls_Auth
  imports Crates Static_Key Protocol
begin

text \<open>
  Control-channel envelopes. This theory holds the interface \<open>control_envelope\<close> that
  \<open>src/src/tls_auth.rs\<close> and \<open>src/src/tls_crypt.rs\<close> both provide to the server, and the tls-auth
  instance (HMAC-SHA256 over a replay header, the opcode, the session id and the body).
\<close>

section \<open>The interface of an envelope\<close>

text \<open>\<open>mirror k\<close> is the peer's view of the keys \<open>k\<close> (outbound and inbound exchanged). An envelope
  wraps anything that has an opcode and a session id, opens what the peer wrapped, and opens
  nothing else: an accepted packet is the peer's wrapping of the contents it is opened to.\<close>

locale control_envelope =
  fixes wrap :: "'k \<Rightarrow> bytes \<Rightarrow> u32 \<Rightarrow> u32 \<Rightarrow> bytes result"
    and unwrap :: "'k \<Rightarrow> bytes \<Rightarrow> (bytes \<times> u32) result"
    and mirror :: "'k \<Rightarrow> 'k"
  assumes wrap_total: "9 \<le> length inner \<Longrightarrow> \<exists>w. wrap k inner pid ts = Ok w"
    and wrap_long: "wrap k inner pid ts = Ok w \<Longrightarrow> 9 \<le> length inner \<and> length inner < length w"
    and unwrap_wrap: "wrap (mirror k) inner pid ts = Ok w \<Longrightarrow> unwrap k w = Ok (inner, pid)"
    and unwrap_sound: "unwrap k w = Ok (inner, pid) \<Longrightarrow> \<exists>ts. wrap (mirror k) inner pid ts = Ok w"
    and mirror_mirror: "mirror (mirror k) = k"
begin

lemma peer_unwraps: "wrap k inner pid ts = Ok w \<Longrightarrow> unwrap (mirror k) w = Ok (inner, pid)"
  using unwrap_wrap [of "mirror k"] by (simp add: mirror_mirror)

lemma wrap_inject:
  "wrap k inner pid ts = Ok w \<Longrightarrow> wrap k inner' pid' ts' = Ok w \<Longrightarrow> inner = inner' \<and> pid = pid'"
  using peer_unwraps [of k inner pid ts w] peer_unwraps [of k inner' pid' ts' w] by simp

lemma unwrap_iff: "unwrap k w = Ok (inner, pid) \<longleftrightarrow> (\<exists>ts. wrap (mirror k) inner pid ts = Ok w)"
  using unwrap_wrap unwrap_sound by blast

text \<open>A control packet sent through the envelope reaches the peer's parser unchanged.\<close>

lemma control_packet_through:
  assumes "wf_control p"
  shows "\<exists>w. wrap k (ControlPacket_encode p) pid ts = Ok w \<and>
           unwrap (mirror k) w = Ok (ControlPacket_encode p, pid) \<and>
           and_then (unwrap (mirror k) w) (\<lambda>(inner, _). ControlPacket_parse inner) = Ok p"
proof -
  have "9 \<le> length (ControlPacket_encode p)" by (simp add: ControlPacket_encode_def)
  then obtain w where w: "wrap k (ControlPacket_encode p) pid ts = Ok w" using wrap_total by blast
  with peer_unwraps [OF w] parse_encode [OF assms] show ?thesis by simp
qed

end

section \<open>tls-auth\<close>

definition HMAC_LEN :: nat where
  "HMAC_LEN = 32"

definition SLOT_LEN :: nat where
  "SLOT_LEN = 64"

definition HEADER_LEN :: nat where
  "HEADER_LEN = 9"

definition REPLAY_HEADER_LEN :: nat where
  "REPLAY_HEADER_LEN = 8"

record TlsAuthKey =
  out_key :: bytes
  in_key :: bytes

definition TlsAuthKey_from_static_key_server :: "bytes \<Rightarrow> u8 \<Rightarrow> TlsAuthKey result" where
  "TlsAuthKey_from_static_key_server km direction =
     and_then
       (if direction = 0 then Ok (SLOT_LEN, SLOT_LEN)
        else if direction = 1 then Ok (SLOT_LEN * 3, SLOT_LEN)
        else Err (Bail ''invalid tls-auth key-direction'' [unat direction]))
       (\<lambda>(out_off, in_off).
          Ok \<lparr>out_key = subslice km out_off (out_off + SLOT_LEN),
              in_key = subslice km in_off (in_off + SLOT_LEN)\<rparr>)"

definition compose_hmac_input :: "u8 \<Rightarrow> bytes \<Rightarrow> u32 \<Rightarrow> u32 \<Rightarrow> bytes \<Rightarrow> bytes" where
  "compose_hmac_input op session_id replay_pid timestamp body =
     to_be_bytes replay_pid @ to_be_bytes timestamp @ [op] @ session_id @ body"

definition compute_hmac :: "crypto_api \<Rightarrow> bytes \<Rightarrow> u8 \<Rightarrow> bytes \<Rightarrow> u32 \<Rightarrow> u32 \<Rightarrow> bytes \<Rightarrow> bytes" where
  "compute_hmac A key op session_id replay_pid timestamp body =
     hmac256_bytes A key (compose_hmac_input op session_id replay_pid timestamp body)"

definition TlsAuthKey_wrap :: "crypto_api \<Rightarrow> TlsAuthKey \<Rightarrow> bytes \<Rightarrow> u32 \<Rightarrow> u32 \<Rightarrow> bytes result" where
  "TlsAuthKey_wrap A self inner replay_pid timestamp =
     (if length inner < HEADER_LEN then
        Err (Bail ''inner control packet too short'' [length inner, HEADER_LEN])
      else
        let op = inner ! 0;
            session_id = subslice inner 1 HEADER_LEN;
            body = drop HEADER_LEN inner;
            hmac = compute_hmac A (out_key self) op session_id replay_pid timestamp body
        in Ok ([op] @ session_id @ hmac @ to_be_bytes replay_pid @ to_be_bytes timestamp @ body))"

definition TlsAuthKey_unwrap :: "crypto_api \<Rightarrow> TlsAuthKey \<Rightarrow> bytes \<Rightarrow> (bytes \<times> u32) result" where
  "TlsAuthKey_unwrap A self pkt =
     (let min_len = HEADER_LEN + HMAC_LEN + REPLAY_HEADER_LEN
      in if length pkt < min_len then
           Err (Bail ''packet too short for tls-auth'' [length pkt, min_len])
         else
           let op = pkt ! 0;
               session_id = subslice pkt 1 HEADER_LEN;
               hmac_recv = subslice pkt HEADER_LEN (HEADER_LEN + HMAC_LEN);
               after_hmac = HEADER_LEN + HMAC_LEN;
               replay_pid = from_be_bytes (subslice pkt after_hmac (after_hmac + 4));
               timestamp = from_be_bytes (subslice pkt (after_hmac + 4) (after_hmac + 8));
               body = drop (after_hmac + REPLAY_HEADER_LEN) pkt;
               mac = hmac256_bytes A (in_key self)
                       (compose_hmac_input op session_id replay_pid timestamp body)
           in if mac \<noteq> hmac_recv then bail ''tls-auth HMAC mismatch''
              else Ok ([op] @ session_id @ body, replay_pid))"

text \<open>The client's key: the server's with the two directions exchanged.\<close>

definition TlsAuthKey_mirror :: "TlsAuthKey \<Rightarrow> TlsAuthKey" where
  "TlsAuthKey_mirror k = \<lparr>out_key = in_key k, in_key = out_key k\<rparr>"

lemmas tls_auth_lens = HMAC_LEN_def SLOT_LEN_def HEADER_LEN_def REPLAY_HEADER_LEN_def

text \<open>A packet with at least nine octets is its opcode, its session id and its body.\<close>

lemma header_split:
  assumes "9 \<le> length inner"
  shows "inner = [inner ! 0] @ subslice inner 1 9 @ drop 9 inner" "length (subslice inner 1 9) = 8"
proof -
  have "subslice inner 0 1 = [inner ! 0]" using assms by (cases inner) (simp_all add: subslice_def)
  moreover have "inner = subslice inner 0 1 @ subslice inner 1 9 @ drop 9 inner"
    using subslice_drop [of 0 1 inner] subslice_drop [of 1 9 inner] by simp
  ultimately show "inner = [inner ! 0] @ subslice inner 1 9 @ drop 9 inner" by simp
  show "length (subslice inner 1 9) = 8" using assms by simp
qed

lemma tls_auth_wrap_parts:
  assumes "length sid = 8"
  shows "TlsAuthKey_wrap A k ([op] @ sid @ body) pid ts =
         Ok ([op] @ sid @ compute_hmac A (out_key k) op sid pid ts body
             @ to_be_bytes pid @ to_be_bytes ts @ body)"
  using assms by (simp add: TlsAuthKey_wrap_def tls_auth_lens subslice_def)

lemma tls_auth_unwrap_parts:
  assumes "length sid = 8" "length tag = 32"
  shows "TlsAuthKey_unwrap A k ([op] @ sid @ tag @ to_be_bytes pid @ to_be_bytes ts @ body) =
         (if compute_hmac A (in_key k) op sid pid ts body \<noteq> tag then bail ''tls-auth HMAC mismatch''
          else Ok ([op] @ sid @ body, pid))"
  using assms
  by (simp add: TlsAuthKey_unwrap_def tls_auth_lens subslice_def from_to_be compute_hmac_def)

lemma tls_auth_pkt_split:
  assumes "49 \<le> length w"
  obtains op sid tag pid ts body where "length sid = 8" "length tag = 32"
    "w = [op] @ sid @ tag @ to_be_bytes (pid :: u32) @ to_be_bytes (ts :: u32) @ body"
proof -
  let ?pid = "from_be_bytes (subslice w 41 45) :: u32" and ?ts = "from_be_bytes (subslice w 45 49) :: u32"
  have "w = [w ! 0] @ subslice w 1 9 @ drop 9 w" using assms by (intro header_split(1)) simp
  also have "drop 9 w = subslice w 9 41 @ subslice w 41 45 @ subslice w 45 49 @ drop 49 w"
    by (simp add: subslice_drop)
  also have "subslice w 41 45 = to_be_bytes ?pid" using assms by (simp add: to_from_be)
  also have "subslice w 45 49 = to_be_bytes ?ts" using assms by (simp add: to_from_be)
  finally have "w = [w ! 0] @ subslice w 1 9 @ subslice w 9 41 @ to_be_bytes ?pid @ to_be_bytes ?ts @ drop 49 w" .
  then show thesis using that [of "subslice w 1 9" "subslice w 9 41" "w ! 0" ?pid ?ts "drop 49 w"] assms by simp
qed

lemma tls_auth_unwrap_sound:
  assumes "TlsAuthKey_unwrap A k w = Ok (inner, pid)"
  shows "\<exists>ts. TlsAuthKey_wrap A (TlsAuthKey_mirror k) inner pid ts = Ok w"
proof -
  from assms have "49 \<le> length w"
    by (auto simp: TlsAuthKey_unwrap_def tls_auth_lens Let_def split: if_splits)
  then obtain op sid tag pid' ts body where w: "length sid = 8" "length tag = 32"
    "w = [op] @ sid @ tag @ to_be_bytes (pid' :: u32) @ to_be_bytes (ts :: u32) @ body"
    by (rule tls_auth_pkt_split)
  from assms have "compute_hmac A (in_key k) op sid pid' ts body = tag" "inner = [op] @ sid @ body" "pid = pid'"
    unfolding w(3) tls_auth_unwrap_parts [OF w(1,2)] by (auto split: if_splits)
  then show ?thesis
    using tls_auth_wrap_parts [OF w(1), of A "TlsAuthKey_mirror k" op body pid' ts] w(3)
    by (auto simp: TlsAuthKey_mirror_def)
qed

lemma tls_auth_unwrap_wrap:
  assumes "TlsAuthKey_wrap A (TlsAuthKey_mirror k) inner pid ts = Ok w"
  shows "TlsAuthKey_unwrap A k w = Ok (inner, pid)"
proof -
  have len: "9 \<le> length inner"
    using assms by (auto simp: TlsAuthKey_wrap_def tls_auth_lens split: if_splits)
  define sid where "sid = subslice inner 1 9"
  have i: "inner = [inner ! 0] @ sid @ drop 9 inner" "length sid = 8"
    using header_split [OF len] by (simp_all add: sid_def)
  from assms have "w = [inner ! 0] @ sid @ compute_hmac A (in_key k) (inner ! 0) sid pid ts (drop 9 inner)
      @ to_be_bytes pid @ to_be_bytes ts @ drop 9 inner"
    using tls_auth_wrap_parts [OF i(2), of A "TlsAuthKey_mirror k" "inner ! 0" "drop 9 inner" pid ts]
    unfolding i(1) [symmetric] by (simp add: TlsAuthKey_mirror_def)
  then show ?thesis
    using tls_auth_unwrap_parts [OF i(2), of "compute_hmac A (in_key k) (inner ! 0) sid pid ts (drop 9 inner)"]
      i(1) by (simp add: compute_hmac_def)
qed

interpretation tauth: control_envelope "TlsAuthKey_wrap A" "TlsAuthKey_unwrap A" TlsAuthKey_mirror for A
proof unfold_locales
  fix k inner pid ts
  show "9 \<le> length inner \<Longrightarrow> \<exists>w. TlsAuthKey_wrap A k inner pid ts = Ok w"
    by (simp add: TlsAuthKey_wrap_def tls_auth_lens Let_def)
next
  fix k inner pid ts w
  show "TlsAuthKey_wrap A k inner pid ts = Ok w \<Longrightarrow> 9 \<le> length inner \<and> length inner < length w"
    by (auto simp: TlsAuthKey_wrap_def tls_auth_lens Let_def compute_hmac_def split: if_splits)
qed (fact tls_auth_unwrap_wrap, fact tls_auth_unwrap_sound, simp add: TlsAuthKey_mirror_def)

section \<open>Properties\<close>

text \<open>A packet for the witnesses.\<close>

definition example_control :: ControlPacket where
  "example_control =
     \<lparr>cp_op = ControlV1, cp_key_id = 0, cp_session_id = 42, cp_acks = [1, 2],
      cp_remote_session_id = Some 99, cp_packet_id = Some 7, cp_payload = [0xDE, 0xAD, 0xBE, 0xEF]\<rparr>"

lemma wf_example_control: "wf_control example_control"
  by (simp add: wf_control_def is_control_def example_control_def)

text \<open>A well-formed control packet wrapped by one side of a tls-auth connection is accepted by
  the other side, with the replay id it was stamped with, and parses back to the same packet.\<close>

theorem tls_auth_delivers:
  assumes "wf_control p"
  shows "\<exists>w. TlsAuthKey_wrap A k (ControlPacket_encode p) pid ts = Ok w \<and>
           TlsAuthKey_unwrap A (TlsAuthKey_mirror k) w = Ok (ControlPacket_encode p, pid) \<and>
           and_then (TlsAuthKey_unwrap A (TlsAuthKey_mirror k) w) (\<lambda>(inner, _). ControlPacket_parse inner)
             = Ok p"
  using assms by (rule tauth.control_packet_through)

theorem tls_auth_delivers_witness:
  "let k = \<lparr>out_key = replicate 64 1, in_key = replicate 64 2\<rparr>
   in wf_control example_control \<and>
      (\<exists>w. TlsAuthKey_wrap example_api k (ControlPacket_encode example_control) 5 1700000000 = Ok w \<and>
        TlsAuthKey_unwrap example_api (TlsAuthKey_mirror k) w = Ok (ControlPacket_encode example_control, 5) \<and>
        and_then (TlsAuthKey_unwrap example_api (TlsAuthKey_mirror k) w)
          (\<lambda>(inner, _). ControlPacket_parse inner) = Ok example_control)"
  unfolding Let_def by (intro conjI wf_example_control tls_auth_delivers)

text \<open>C20: tls-auth accepts exactly the packets the holder of the mirrored key can produce: a packet
  opens to some contents and replay id if and only if it is the peer's wrapping of them at some
  timestamp. So a change of any octet is either rejected or is itself such a wrapping.\<close>

theorem tls_auth_authentic:
  "TlsAuthKey_unwrap A k w = Ok (inner, pid) \<longleftrightarrow>
   (\<exists>ts. TlsAuthKey_wrap A (TlsAuthKey_mirror k) inner pid ts = Ok w)"
  by (rule tauth.unwrap_iff)

end
