(* ===== verification/Tls_Crypt.thy ===== *)
theory Tls_Crypt
  imports Tls_Auth
begin

text \<open>
  The tls-crypt envelope (\<open>src/src/tls_crypt.rs\<close>): the body is encrypted with AES-256-CTR under an
  IV that is the head of an HMAC-SHA256 tag over header and plaintext. It is a second instance of
  \<open>control_envelope\<close>. Constants that \<open>tls_auth.rs\<close> also declares carry the prefix \<open>TC_\<close>.
\<close>

definition TAG_LEN :: nat where
  "TAG_LEN = 32"

definition PACKET_ID_LEN :: nat where
  "PACKET_ID_LEN = 8"

definition TC_HEADER_LEN :: nat where
  "TC_HEADER_LEN = 1 + 8 + PACKET_ID_LEN"

definition TC_KEY_LEN :: nat where
  "TC_KEY_LEN = 32"

definition SLOT :: nat where
  "SLOT = 64"

record TlsCryptKey =
  enc_cipher_key :: bytes
  enc_hmac_key :: bytes
  dec_cipher_key :: bytes
  dec_hmac_key :: bytes

definition TlsCryptKey_from_static_key_server :: "bytes \<Rightarrow> TlsCryptKey" where
  "TlsCryptKey_from_static_key_server km =
     \<lparr>enc_cipher_key = subslice km 0 TC_KEY_LEN,
      enc_hmac_key = subslice km SLOT (SLOT + TC_KEY_LEN),
      dec_cipher_key = subslice km (SLOT * 2) (SLOT * 2 + TC_KEY_LEN),
      dec_hmac_key = subslice km (SLOT * 3) (SLOT * 3 + TC_KEY_LEN)\<rparr>"

definition TlsCryptKey_wrap :: "crypto_api \<Rightarrow> TlsCryptKey \<Rightarrow> bytes \<Rightarrow> u32 \<Rightarrow> u32 \<Rightarrow> bytes result" where
  "TlsCryptKey_wrap A self inner packet_id timestamp =
     (if length inner < 9 then
        Err (Bail ''tls-crypt: inner control packet too short'' [length inner])
      else
        let op = inner ! 0;
            session_id = subslice inner 1 9;
            body = drop 9 inner;
            header = [op] @ session_id @ to_be_bytes packet_id @ to_be_bytes timestamp;
            tag = hmac256_bytes A (enc_hmac_key self) (header @ body);
            ciphertext = apply_keystream (aes256_ctr A (enc_cipher_key self) (take 16 tag)) 0 body
        in Ok (header @ tag @ ciphertext))"

definition TlsCryptKey_unwrap :: "crypto_api \<Rightarrow> TlsCryptKey \<Rightarrow> bytes \<Rightarrow> (bytes \<times> u32) result" where
  "TlsCryptKey_unwrap A self pkt =
     (let min_len = TC_HEADER_LEN + TAG_LEN
      in if length pkt < min_len then
           Err (Bail ''tls-crypt: packet too short'' [length pkt, min_len])
         else
           let header = take TC_HEADER_LEN pkt;
               op = header ! 0;
               session_id = subslice header 1 9;
               packet_id = from_be_bytes (subslice header 9 13);
               tag = subslice pkt TC_HEADER_LEN (TC_HEADER_LEN + TAG_LEN);
               ciphertext = drop (TC_HEADER_LEN + TAG_LEN) pkt;
               plaintext = apply_keystream (aes256_ctr A (dec_cipher_key self) (take 16 tag)) 0 ciphertext
           in if hmac256_bytes A (dec_hmac_key self) (header @ plaintext) \<noteq> tag
              then bail ''tls-crypt HMAC mismatch''
              else Ok ([op] @ session_id @ plaintext, packet_id))"

text \<open>The client's keys: encryption and decryption exchanged.\<close>

definition TlsCryptKey_mirror :: "TlsCryptKey \<Rightarrow> TlsCryptKey" where
  "TlsCryptKey_mirror k =
     \<lparr>enc_cipher_key = dec_cipher_key k, enc_hmac_key = dec_hmac_key k,
      dec_cipher_key = enc_cipher_key k, dec_hmac_key = enc_hmac_key k\<rparr>"

lemmas tls_crypt_lens = TAG_LEN_def PACKET_ID_LEN_def TC_HEADER_LEN_def TC_KEY_LEN_def SLOT_def

lemma tls_crypt_wrap_parts:
  fixes pid ts :: u32
  assumes "length sid = 8" and "header = [op] @ sid @ to_be_bytes pid @ to_be_bytes ts"
    and "tag = hmac256_bytes A (enc_hmac_key k) (header @ body)"
  shows "TlsCryptKey_wrap A k ([op] @ sid @ body) pid ts =
         Ok (header @ tag @ apply_keystream (aes256_ctr A (enc_cipher_key k) (take 16 tag)) 0 body)"
  using assms by (simp add: TlsCryptKey_wrap_def tls_crypt_lens subslice_def Let_def)

lemma tls_crypt_unwrap_parts:
  fixes pid ts :: u32
  assumes "length sid = 8" "length tag = 32"
    and "header = [op] @ sid @ to_be_bytes pid @ to_be_bytes ts"
    and "body = apply_keystream (aes256_ctr A (dec_cipher_key k) (take 16 tag)) 0 ct"
  shows "TlsCryptKey_unwrap A k (header @ tag @ ct) =
         (if hmac256_bytes A (dec_hmac_key k) (header @ body) \<noteq> tag then bail ''tls-crypt HMAC mismatch''
          else Ok ([op] @ sid @ body, pid))"
  using assms by (simp add: TlsCryptKey_unwrap_def tls_crypt_lens subslice_def from_to_be Let_def)

lemma tls_crypt_pkt_split:
  assumes "49 \<le> length w"
  obtains op sid tag pid ts ct where "length sid = 8" "length tag = 32"
    "w = ([op] @ sid @ to_be_bytes (pid :: u32) @ to_be_bytes (ts :: u32)) @ tag @ ct"
proof -
  let ?pid = "from_be_bytes (subslice w 9 13) :: u32" and ?ts = "from_be_bytes (subslice w 13 17) :: u32"
  have "w = [w ! 0] @ subslice w 1 9 @ drop 9 w" using assms by (intro header_split(1)) simp
  also have "drop 9 w = subslice w 9 13 @ subslice w 13 17 @ subslice w 17 49 @ drop 49 w"
    by (simp add: subslice_drop)
  also have "subslice w 9 13 = to_be_bytes ?pid" using assms by (simp add: to_from_be)
  also have "subslice w 13 17 = to_be_bytes ?ts" using assms by (simp add: to_from_be)
  finally have "w = ([w ! 0] @ subslice w 1 9 @ to_be_bytes ?pid @ to_be_bytes ?ts) @ subslice w 17 49 @ drop 49 w"
    by simp
  then show thesis using that [of "subslice w 1 9" "subslice w 17 49" "w ! 0" ?pid ?ts "drop 49 w"] assms by simp
qed

lemma tls_crypt_unwrap_sound:
  assumes "TlsCryptKey_unwrap A k w = Ok (inner, pid)"
  shows "\<exists>ts. TlsCryptKey_wrap A (TlsCryptKey_mirror k) inner pid ts = Ok w"
proof -
  from assms have "49 \<le> length w"
    by (auto simp: TlsCryptKey_unwrap_def tls_crypt_lens Let_def split: if_splits)
  then obtain op sid tag pid' ts ct where w: "length sid = 8" "length tag = 32"
    "w = ([op] @ sid @ to_be_bytes (pid' :: u32) @ to_be_bytes (ts :: u32)) @ tag @ ct"
    by (rule tls_crypt_pkt_split)
  define header where "header = [op] @ sid @ to_be_bytes pid' @ to_be_bytes ts"
  define body where "body = apply_keystream (aes256_ctr A (dec_cipher_key k) (take 16 tag)) 0 ct"
  have ct: "ct = apply_keystream (aes256_ctr A (dec_cipher_key k) (take 16 tag)) 0 body"
    by (simp add: body_def)
  from assms have *: "hmac256_bytes A (dec_hmac_key k) (header @ body) = tag" "inner = [op] @ sid @ body" "pid = pid'"
    unfolding w(3) header_def [symmetric] tls_crypt_unwrap_parts [OF w(1,2) header_def body_def]
    by (auto split: if_splits)
  from tls_crypt_wrap_parts [OF w(1) header_def refl, of A "TlsCryptKey_mirror k" body] * w(3) ct
  show ?thesis by (auto simp: TlsCryptKey_mirror_def header_def)
qed

lemma tls_crypt_unwrap_wrap:
  assumes "TlsCryptKey_wrap A (TlsCryptKey_mirror k) inner pid ts = Ok w"
  shows "TlsCryptKey_unwrap A k w = Ok (inner, pid)"
proof -
  have len: "9 \<le> length inner"
    using assms by (auto simp: TlsCryptKey_wrap_def split: if_splits)
  define sid body where "sid = subslice inner 1 9" and "body = drop 9 inner"
  have i: "inner = [inner ! 0] @ sid @ body" "length sid = 8"
    using header_split [OF len] by (simp_all add: sid_def body_def)
  define header where "header = [inner ! 0] @ sid @ to_be_bytes pid @ to_be_bytes ts"
  define tag where "tag = hmac256_bytes A (enc_hmac_key (TlsCryptKey_mirror k)) (header @ body)"
  have l: "length tag = 32" by (simp add: tag_def)
  from assms have "w = header @ tag @
      apply_keystream (aes256_ctr A (enc_cipher_key (TlsCryptKey_mirror k)) (take 16 tag)) 0 body"
    using tls_crypt_wrap_parts [OF i(2) header_def tag_def] unfolding i(1) [symmetric] by simp
  then show ?thesis
    using tls_crypt_unwrap_parts [OF i(2) l header_def refl, of A k] i(1)
    by (simp add: TlsCryptKey_mirror_def tag_def)
qed

interpretation tcrypt: control_envelope "TlsCryptKey_wrap A" "TlsCryptKey_unwrap A" TlsCryptKey_mirror for A
proof unfold_locales
  fix k inner pid ts
  show "9 \<le> length inner \<Longrightarrow> \<exists>w. TlsCryptKey_wrap A k inner pid ts = Ok w"
    by (simp add: TlsCryptKey_wrap_def Let_def)
next
  fix k inner pid ts w
  show "TlsCryptKey_wrap A k inner pid ts = Ok w \<Longrightarrow> 9 \<le> length inner \<and> length inner < length w"
    by (auto simp: TlsCryptKey_wrap_def Let_def split: if_splits)
qed (fact tls_crypt_unwrap_wrap, fact tls_crypt_unwrap_sound, simp add: TlsCryptKey_mirror_def)

section \<open>Properties\<close>

text \<open>A well-formed control packet encrypted by one side of a tls-crypt connection is decrypted by
  the other side, with the packet id it was stamped with, and parses back to the same packet.\<close>

theorem tls_crypt_delivers:
  assumes "wf_control p"
  shows "\<exists>w. TlsCryptKey_wrap A k (ControlPacket_encode p) pid ts = Ok w \<and>
           TlsCryptKey_unwrap A (TlsCryptKey_mirror k) w = Ok (ControlPacket_encode p, pid) \<and>
           and_then (TlsCryptKey_unwrap A (TlsCryptKey_mirror k) w) (\<lambda>(inner, _). ControlPacket_parse inner)
             = Ok p"
  using assms by (rule tcrypt.control_packet_through)

theorem tls_crypt_delivers_witness:
  "let k = TlsCryptKey_from_static_key_server (map word_of_nat [0..<256])
   in wf_control example_control \<and>
      (\<exists>w. TlsCryptKey_wrap example_api k (ControlPacket_encode example_control) 5 1700000000 = Ok w \<and>
        TlsCryptKey_unwrap example_api (TlsCryptKey_mirror k) w = Ok (ControlPacket_encode example_control, 5) \<and>
        and_then (TlsCryptKey_unwrap example_api (TlsCryptKey_mirror k) w)
          (\<lambda>(inner, _). ControlPacket_parse inner) = Ok example_control)"
  unfolding Let_def by (intro conjI wf_example_control tls_crypt_delivers)

text \<open>C15: tls-crypt accepts exactly the packets the holder of the mirrored keys can produce.\<close>

theorem tls_crypt_authentic:
  "TlsCryptKey_unwrap A k w = Ok (inner, pid) \<longleftrightarrow>
   (\<exists>ts. TlsCryptKey_wrap A (TlsCryptKey_mirror k) inner pid ts = Ok w)"
  by (rule tcrypt.unwrap_iff)

end
