(* ===== verification/Prf.thy ===== *)
theory Prf
  imports Crates Rust_Str
begin

text \<open>
  The TLS 1.0 PRF and the \<open>key-method 2\<close> key derivation (\<open>src/src/prf.rs\<close>). \<open>p_hash\<close> is generic in
  its HMAC; its loop ends only because every block is non-empty, so it is a partial function here,
  and the locale \<open>prf_hmac\<close> proves from the contract of an HMAC (fixed non-zero output size, parts
  are concatenated) that it returns the prefix of the key stream of RFC 4346. The two HMACs of the
  source are its interpretations.
\<close>

section \<open>Definitions\<close>

definition KEYMAT_LEN :: nat where
  "KEYMAT_LEN = 256"

definition MASTER_LEN :: nat where
  "MASTER_LEN = 48"

definition MASTER_LABEL :: bytes where
  "MASTER_LABEL = as_bytes ''OpenVPN master secret''"

definition KEY_EXP_LABEL :: bytes where
  "KEY_EXP_LABEL = as_bytes ''OpenVPN key expansion''"

definition hmac_md5 :: "crypto_api \<Rightarrow> bytes \<Rightarrow> bytes list \<Rightarrow> bytes" where
  "hmac_md5 A key parts = to_be_bytes (hmac_md5_digest A key (concat parts))"

definition hmac_sha1 :: "crypto_api \<Rightarrow> bytes \<Rightarrow> bytes list \<Rightarrow> bytes" where
  "hmac_sha1 A key parts = to_be_bytes (hmac_sha1_digest A key (concat parts))"

text \<open>\<open>out[i..i + bs.len()].copy_from_slice(bs)\<close>.\<close>

definition overwrite :: "bytes \<Rightarrow> nat \<Rightarrow> bytes \<Rightarrow> bytes" where
  "overwrite out i bs = take i out @ bs @ drop (i + length bs) out"

partial_function (option) p_hash_loop ::
  "(bytes \<Rightarrow> bytes list \<Rightarrow> bytes) \<Rightarrow> bytes \<Rightarrow> bytes \<Rightarrow> bytes \<Rightarrow> nat \<Rightarrow> bytes \<Rightarrow> bytes option" where
  "p_hash_loop hmac_fn secret seed a written out =
     (if written < length out then
        let block = hmac_fn secret [a, seed];
            n = min (length block) (length out - written)
        in p_hash_loop hmac_fn secret seed (hmac_fn secret [a]) (written + n)
             (overwrite out written (take n block))
      else Some out)"

definition p_hash :: "(bytes \<Rightarrow> bytes list \<Rightarrow> bytes) \<Rightarrow> bytes \<Rightarrow> bytes \<Rightarrow> bytes \<Rightarrow> bytes option" where
  "p_hash hmac_fn secret seed out = p_hash_loop hmac_fn secret seed (hmac_fn secret [seed]) 0 out"

definition tls10_prf :: "crypto_api \<Rightarrow> bytes \<Rightarrow> bytes \<Rightarrow> bytes \<Rightarrow> nat \<Rightarrow> bytes option" where
  "tls10_prf A secret label seed out_len =
     (let half = (length secret + 1) div 2;
          s1 = take half secret;
          s2 = drop (length secret - half) secret;
          combined = label @ seed
      in case p_hash (hmac_md5 A) s1 combined (replicate out_len 0) of
           None \<Rightarrow> None
         | Some md5_out \<Rightarrow>
             (case p_hash (hmac_sha1 A) s2 combined (replicate out_len 0) of
                None \<Rightarrow> None
              | Some sha1_out \<Rightarrow> Some (map2 (XOR) md5_out sha1_out)))"

definition derive_openvpn_key_data ::
  "crypto_api \<Rightarrow> bytes \<Rightarrow> bytes \<Rightarrow> bytes \<Rightarrow> bytes \<Rightarrow> bytes \<Rightarrow> bytes \<Rightarrow> bytes \<Rightarrow> bytes option" where
  "derive_openvpn_key_data A pre_master client_random1 server_random1 client_random2 server_random2
       client_sid server_sid =
     (case tls10_prf A pre_master MASTER_LABEL (client_random1 @ server_random1) MASTER_LEN of
        None \<Rightarrow> None
      | Some master \<Rightarrow>
          tls10_prf A master KEY_EXP_LABEL
            (client_random2 @ server_random2 @ client_sid @ server_sid) KEYMAT_LEN)"

section \<open>RFC 4346\<close>

primrec P_A :: "(bytes \<Rightarrow> bytes \<Rightarrow> bytes) \<Rightarrow> bytes \<Rightarrow> bytes \<Rightarrow> nat \<Rightarrow> bytes" where
  "P_A hmac secret seed 0 = seed"
| "P_A hmac secret seed (Suc i) = hmac secret (P_A hmac secret seed i)"

text \<open>The first \<open>m\<close> blocks of \<open>P_hash\<close>, and its first \<open>n\<close> octets (\<open>n\<close> blocks are enough for them,
  since a block has at least one octet).\<close>

definition P_blocks :: "(bytes \<Rightarrow> bytes \<Rightarrow> bytes) \<Rightarrow> bytes \<Rightarrow> bytes \<Rightarrow> nat \<Rightarrow> bytes" where
  "P_blocks hmac secret seed m =
     concat (map (\<lambda>i. hmac secret (P_A hmac secret seed (Suc i) @ seed)) [0..<m])"

definition P_hash_rfc :: "(bytes \<Rightarrow> bytes \<Rightarrow> bytes) \<Rightarrow> bytes \<Rightarrow> bytes \<Rightarrow> nat \<Rightarrow> bytes" where
  "P_hash_rfc hmac secret seed n = take n (P_blocks hmac secret seed n)"

text \<open>The PRF: \<open>S1\<close> is the first and \<open>S2\<close> the last half of the secret, rounded up.\<close>

definition PRF_rfc :: "crypto_api \<Rightarrow> bytes \<Rightarrow> bytes \<Rightarrow> bytes \<Rightarrow> nat \<Rightarrow> bytes" where
  "PRF_rfc A secret label seed n =
     (let h = (length secret + 1) div 2
      in map2 (XOR)
           (P_hash_rfc (\<lambda>k m. to_be_bytes (hmac_md5_digest A k m)) (take h secret) (label @ seed) n)
           (P_hash_rfc (\<lambda>k m. to_be_bytes (hmac_sha1_digest A k m)) (rev (take h (rev secret))) (label @ seed) n))"

section \<open>The contract of an HMAC\<close>

locale prf_hmac =
  fixes hmac_fn :: "bytes \<Rightarrow> bytes list \<Rightarrow> bytes"
    and hmac :: "bytes \<Rightarrow> bytes \<Rightarrow> bytes"
    and hlen :: nat
  assumes hmac_parts: "hmac_fn k parts = hmac k (concat parts)"
    and hmac_len: "length (hmac k m) = hlen"
    and hlen_pos: "0 < hlen"
begin

lemma length_P_blocks: "length (P_blocks hmac secret seed m) = m * hlen"
  by (induction m) (simp_all add: P_blocks_def hmac_len)

lemma P_blocks_Suc:
  "P_blocks hmac secret seed (Suc m) =
   P_blocks hmac secret seed m @ hmac secret (P_A hmac secret seed (Suc m) @ seed)"
  by (simp add: P_blocks_def)

lemma P_blocks_prefix:
  assumes "m \<le> m'"
  shows "\<exists>zs. P_blocks hmac secret seed m' = P_blocks hmac secret seed m @ zs"
  using assms by (induction rule: dec_induct) (auto simp: P_blocks_Suc)

lemma take_P_blocks:
  assumes "n \<le> m * hlen"
  shows "take n (P_blocks hmac secret seed m) = P_hash_rfc hmac secret seed n"
proof -
  have n: "n \<le> n * hlen" using hlen_pos by simp
  consider "m \<le> n" | "n \<le> m" by linarith
  then show ?thesis
  proof cases
    case 1
    then obtain zs where "P_blocks hmac secret seed n = P_blocks hmac secret seed m @ zs"
      using P_blocks_prefix by blast
    then show ?thesis using assms by (simp add: P_hash_rfc_def length_P_blocks)
  next
    case 2
    then obtain zs where "P_blocks hmac secret seed m = P_blocks hmac secret seed n @ zs"
      using P_blocks_prefix by blast
    then show ?thesis using n by (simp add: P_hash_rfc_def length_P_blocks)
  qed
qed

lemma p_hash_loop_rfc:
  assumes "written = min (m * hlen) (length out)"
    and "take written out = take written (P_blocks hmac secret seed m)"
    and "a = P_A hmac secret seed (Suc m)"
  shows "p_hash_loop hmac_fn secret seed a written out = Some (P_hash_rfc hmac secret seed (length out))"
  using assms
proof (induction "length out - written" arbitrary: written out a m rule: less_induct)
  case less
  show ?case
  proof (cases "written < length out")
    case False
    then show ?thesis using less.prems take_P_blocks [of "length out" m secret seed]
      by (simp add: p_hash_loop.simps)
  next
    case True
    then have w: "written = m * hlen" using less.prems(1) by simp
    let ?block = "hmac secret (P_A hmac secret seed (Suc m) @ seed)"
    let ?n = "min hlen (length out - written)"
    let ?out = "overwrite out written (take ?n ?block)"
    have n: "0 < ?n" using True hlen_pos by simp
    have len: "length ?out = length out" using True by (simp add: overwrite_def hmac_len)
    have pre: "take (written + ?n) ?out = take (written + ?n) (P_blocks hmac secret seed (Suc m))"
      using less.prems(2) True by (simp add: overwrite_def hmac_len P_blocks_Suc length_P_blocks w)
    have "p_hash_loop hmac_fn secret seed (hmac secret a) (written + ?n) ?out =
        Some (P_hash_rfc hmac secret seed (length ?out))"
      using True n w less.prems(3) len pre by (intro less.hyps [of _ _ "Suc m"]) auto
    then show ?thesis
      using True less.prems(3) len by (subst p_hash_loop.simps) (simp add: hmac_parts hmac_len)
  qed
qed

lemma p_hash_is_rfc: "p_hash hmac_fn secret seed out = Some (P_hash_rfc hmac secret seed (length out))"
  unfolding p_hash_def by (rule p_hash_loop_rfc [where m = 0]) (simp_all add: hmac_parts)

lemma length_P_hash_rfc: "length (P_hash_rfc hmac secret seed n) = n"
  using hlen_pos by (simp add: P_hash_rfc_def length_P_blocks)

end

interpretation md5: prf_hmac "hmac_md5 A" "\<lambda>k m. to_be_bytes (hmac_md5_digest A k m)" 16 for A
  by unfold_locales (simp_all add: hmac_md5_def)

interpretation sha1: prf_hmac "hmac_sha1 A" "\<lambda>k m. to_be_bytes (hmac_sha1_digest A k m)" 20 for A
  by unfold_locales (simp_all add: hmac_sha1_def)

section \<open>Properties\<close>

lemma tls10_prf_rfc: "tls10_prf A secret label seed n = Some (PRF_rfc A secret label seed n)"
  by (simp add: tls10_prf_def PRF_rfc_def md5.p_hash_is_rfc sha1.p_hash_is_rfc Let_def rev_take)

lemma length_PRF_rfc [simp]: "length (PRF_rfc A secret label seed n) = n"
  by (simp add: PRF_rfc_def Let_def md5.length_P_hash_rfc sha1.length_P_hash_rfc)

text \<open>C16: the key derivation always returns (the loop of \<open>p_hash\<close> ends for both HMACs), and its result
  is the double application of the RFC 4346 PRF: 48 octets of master secret from the pre-master
  and the first randoms, and from it 256 octets of key material over the second randoms and the
  two session ids.\<close>

theorem key_derivation_rfc:
  "derive_openvpn_key_data A pre_master cr1 sr1 cr2 sr2 csid ssid =
     Some (PRF_rfc A (PRF_rfc A pre_master (as_bytes ''OpenVPN master secret'') (cr1 @ sr1) 48)
            (as_bytes ''OpenVPN key expansion'') (cr2 @ sr2 @ csid @ ssid) 256)"
  by (simp add: derive_openvpn_key_data_def tls10_prf_rfc MASTER_LABEL_def KEY_EXP_LABEL_def
      MASTER_LEN_def KEYMAT_LEN_def)

lemma derive_total:
  obtains kd where "derive_openvpn_key_data A pm cr1 sr1 cr2 sr2 csid ssid = Some kd" "length kd = 256"
  by (simp add: derive_openvpn_key_data_def tls10_prf_rfc KEYMAT_LEN_def)

end
