(* ===== verification/Crypto.thy ===== *)
theory Crypto
  imports Prf
begin

text \<open>
  The AES-256-GCM data channel (\<open>src/src/crypto.rs\<close>): the two directions' keys and implicit IVs cut
  out of the derived key material, sealing into the wire order \<open>tag || ciphertext\<close>, and opening.
  \<open>SLOT\<close> of this file is \<open>DC_SLOT\<close> here.
\<close>

definition KEY_SIZE :: nat where
  "KEY_SIZE = 32"

definition IMPLICIT_IV_SIZE :: nat where
  "IMPLICIT_IV_SIZE = 8"

definition TAG_SIZE :: nat where
  "TAG_SIZE = 16"

definition DC_SLOT :: nat where
  "DC_SLOT = 64"

record DataCipher =
  enc_key :: bytes
  dec_key :: bytes
  enc_iv :: bytes
  dec_iv :: bytes

definition DataCipher_from_keymat_server :: "bytes \<Rightarrow> DataCipher" where
  "DataCipher_from_keymat_server km =
     (let client_enc = subslice km 0 KEY_SIZE;
          client_iv = subslice km DC_SLOT (DC_SLOT + IMPLICIT_IV_SIZE);
          server_enc = subslice km (DC_SLOT * 2) (DC_SLOT * 2 + KEY_SIZE);
          server_iv = subslice km (DC_SLOT * 3) (DC_SLOT * 3 + IMPLICIT_IV_SIZE)
      in \<lparr>enc_key = server_enc, dec_key = client_enc, enc_iv = server_iv, dec_iv = client_iv\<rparr>)"

definition DataCipher_seal :: "crypto_api \<Rightarrow> DataCipher \<Rightarrow> u32 \<Rightarrow> bytes \<Rightarrow> bytes \<Rightarrow> bytes result" where
  "DataCipher_seal A self packet_id aad plaintext =
     (let nonce = to_be_bytes packet_id @ enc_iv self
      in and_then (ok_or (aes_gcm_encrypt A (enc_key self) nonce aad plaintext) (Bail ''aes-gcm seal'' []))
           (\<lambda>ct_then_tag.
              if length ct_then_tag < TAG_SIZE then Err (Panic ''attempt to subtract with overflow'')
              else let split = length ct_then_tag - TAG_SIZE
                   in Ok (drop split ct_then_tag @ take split ct_then_tag)))"

definition DataCipher_open :: "crypto_api \<Rightarrow> DataCipher \<Rightarrow> u32 \<Rightarrow> bytes \<Rightarrow> bytes \<Rightarrow> bytes result" where
  "DataCipher_open A self packet_id aad wire =
     (if length wire < TAG_SIZE then bail ''ciphertext shorter than auth tag''
      else let tag = take TAG_SIZE wire;
               ct = drop TAG_SIZE wire;
               ct_then_tag = ct @ tag;
               nonce = to_be_bytes packet_id @ dec_iv self
           in ok_or (aes_gcm_decrypt A (dec_key self) nonce aad ct_then_tag) (Bail ''aes-gcm open'' []))"

text \<open>The client's cipher: the server's with the two directions exchanged.\<close>

definition DataCipher_mirror :: "DataCipher \<Rightarrow> DataCipher" where
  "DataCipher_mirror c = \<lparr>enc_key = dec_key c, dec_key = enc_key c, enc_iv = dec_iv c, dec_iv = enc_iv c\<rparr>"

lemma DataCipher_mirror_simps [simp]:
  "enc_key (DataCipher_mirror c) = dec_key c" "dec_key (DataCipher_mirror c) = enc_key c"
  "enc_iv (DataCipher_mirror c) = dec_iv c" "dec_iv (DataCipher_mirror c) = enc_iv c"
  "DataCipher_mirror (DataCipher_mirror c) = c"
  by (simp_all add: DataCipher_mirror_def)

lemma seal_cases:
  assumes "aead_law A" "DataCipher_seal A c pid aad pt = Ok wire"
  obtains ct where "aes_gcm_encrypt A (enc_key c) (to_be_bytes pid @ enc_iv c) aad pt = Some ct"
    "length ct = length pt + 16" "wire = drop (length pt) ct @ take (length pt) ct"
proof -
  from assms(2) obtain ct where ct: "aes_gcm_encrypt A (enc_key c) (to_be_bytes pid @ enc_iv c) aad pt = Some ct"
    by (auto simp: DataCipher_seal_def and_then_eq_Ok ok_or_def split: option.splits)
  with assms(1) have len: "length ct = length pt + 16" by (auto simp: aead_law_def)
  with ct assms(2) have "wire = drop (length pt) ct @ take (length pt) ct"
    by (simp add: DataCipher_seal_def ok_or_def TAG_SIZE_def Let_def)
  with ct len show thesis by (rule that)
qed

lemma open_seal:
  assumes "aead_law A" "DataCipher_seal A c pid aad pt = Ok wire"
  shows "DataCipher_open A (DataCipher_mirror c) pid aad wire = Ok pt" "length wire = length pt + 16"
proof -
  obtain ct where ct: "aes_gcm_encrypt A (enc_key c) (to_be_bytes pid @ enc_iv c) aad pt = Some ct"
    "length ct = length pt + 16" "wire = drop (length pt) ct @ take (length pt) ct"
    using assms by (rule seal_cases)
  with assms(1) have "aes_gcm_decrypt A (enc_key c) (to_be_bytes pid @ enc_iv c) aad ct = Some pt"
    by (auto simp: aead_law_def)
  then show "DataCipher_open A (DataCipher_mirror c) pid aad wire = Ok pt"
    using ct by (simp add: DataCipher_open_def TAG_SIZE_def ok_or_def)
  show "length wire = length pt + 16" using ct by simp
qed

lemma from_keymat_lengths:
  assumes "length km = 256"
  shows "length (enc_key (DataCipher_from_keymat_server km)) = 32"
    "length (dec_key (DataCipher_from_keymat_server km)) = 32"
    "length (enc_iv (DataCipher_from_keymat_server km)) = 8"
    "length (dec_iv (DataCipher_from_keymat_server km)) = 8"
  using assms
  by (simp_all add: DataCipher_from_keymat_server_def KEY_SIZE_def DC_SLOT_def IMPLICIT_IV_SIZE_def Let_def)

lemma nonce_inject:
  fixes p q :: u32
  shows "to_be_bytes p @ iv = to_be_bytes q @ iv \<longleftrightarrow> p = q"
  by (simp add: to_be_bytes_inject)

end
