(* ===== verification/Tls.thy ===== *)
theory Tls
  imports Rust_Str
begin

text \<open>
  The wrapper around a rustls connection (\<open>src/src/tls.rs\<close>, \<open>TlsSession\<close>). rustls and x509-parser
  are parameters: \<open>'c\<close> is the connection state and \<open>rustls_api\<close> holds the calls the code makes, each
  with its result and the connection after it. \<open>.context(..)\<close> only decorates an error and is
  dropped. The drain loop of \<open>feed\<close> ends only if the reader runs dry, so it is a partial function;
  \<open>reader_law\<close> states what rustls documents of its reader.
\<close>

record 'c rustls_api =
  conn_read_tls :: "'c \<Rightarrow> bytes \<Rightarrow> nat result \<times> 'c"
  conn_process_new_packets :: "'c \<Rightarrow> unit result \<times> 'c"
  conn_reader_read :: "'c \<Rightarrow> nat \<Rightarrow> bytes result \<times> 'c"
  conn_write_tls :: "'c \<Rightarrow> bytes \<times> 'c"
  conn_is_handshaking :: "'c \<Rightarrow> bool"
  conn_write_all :: "'c \<Rightarrow> bytes \<Rightarrow> unit result \<times> 'c"
  conn_peer_leaf :: "'c \<Rightarrow> bytes option"
  x509_common_names :: "bytes \<Rightarrow> rstring result list result"

record 'c TlsSession =
  conn :: 'c
  plaintext_in :: bytes

text \<open>x509-parser decodes the certificate and lists the subject's common names, each of them a string or
  an error of \<open>as_str\<close>.\<close>

definition extract_common_name :: "'c rustls_api \<Rightarrow> bytes \<Rightarrow> rstring option result" where
  "extract_common_name T cert_der =
     and_then (x509_common_names T cert_der) (\<lambda>names.
       Ok (case names of [] \<Rightarrow> None | attr # _ \<Rightarrow> (case attr of Inr s \<Rightarrow> Some s | Inl e \<Rightarrow> None)))"

text \<open>\<open>ServerConnection::new\<close> may fail; its outcome is an argument.\<close>

definition TlsSession_new :: "'c result \<Rightarrow> 'c TlsSession result" where
  "TlsSession_new new_conn = and_then new_conn (\<lambda>c. Ok \<lparr>conn = c, plaintext_in = []\<rparr>)"

text \<open>\<open>read_tls(&mut data)\<close> returns how much of \<open>data\<close> it took and advances the slice by it.\<close>

function feed_loop :: "'c rustls_api \<Rightarrow> 'c \<Rightarrow> bytes \<Rightarrow> unit result \<times> 'c" where
  "feed_loop T c data =
     (if data = [] then (Ok (), c)
      else case conn_read_tls T c data of
             (Inl e, c1) \<Rightarrow> (Inl e, c1)
           | (Inr n, c1) \<Rightarrow>
               if n = 0 then (Ok (), c1)
               else (case conn_process_new_packets T c1 of
                       (Inl e, c2) \<Rightarrow> (Inl e, c2)
                     | (Inr _, c2) \<Rightarrow> feed_loop T c2 (drop n data)))"
  by pat_completeness auto
termination by (relation "measure (\<lambda>(T, c, data). length data)") auto

declare feed_loop.simps [simp del]

partial_function (option) drain_loop :: "'c rustls_api \<Rightarrow> 'c \<Rightarrow> bytes \<Rightarrow> (bytes \<times> 'c) option" where
  "drain_loop T c plain =
     (case conn_reader_read T c 4096 of
        (Inl e, c1) \<Rightarrow> Some (plain, c1)
      | (Inr bs, c1) \<Rightarrow> if bs = [] then Some (plain, c1) else drain_loop T c1 (plain @ bs))"

definition TlsSession_feed :: "'c rustls_api \<Rightarrow> 'c TlsSession \<Rightarrow> bytes \<Rightarrow> unit result \<times> 'c TlsSession" where
  "TlsSession_feed T self data =
     (case feed_loop T (conn self) data of
        (Inl e, c1) \<Rightarrow> (Inl e, self\<lparr>conn := c1\<rparr>)
      | (Inr _, c1) \<Rightarrow>
          (case drain_loop T c1 (plaintext_in self) of
             None \<Rightarrow> (Inl Diverge, self\<lparr>conn := c1\<rparr>)
           | Some (plain, c2) \<Rightarrow> (Ok (), self\<lparr>conn := c2, plaintext_in := plain\<rparr>)))"

definition take_outgoing :: "'c rustls_api \<Rightarrow> 'c TlsSession \<Rightarrow> bytes \<times> 'c TlsSession" where
  "take_outgoing T self = (let (buf, c) = conn_write_tls T (conn self) in (buf, self\<lparr>conn := c\<rparr>))"

definition is_handshaking :: "'c rustls_api \<Rightarrow> 'c TlsSession \<Rightarrow> bool" where
  "is_handshaking T self = conn_is_handshaking T (conn self)"

definition send_plaintext :: "'c rustls_api \<Rightarrow> 'c TlsSession \<Rightarrow> bytes \<Rightarrow> unit result \<times> 'c TlsSession" where
  "send_plaintext T self data = (let (r, c) = conn_write_all T (conn self) data in (r, self\<lparr>conn := c\<rparr>))"

section \<open>The reader runs dry\<close>

text \<open>rustls documents that \<open>reader().read\<close> returns buffered plaintext and then \<open>WouldBlock\<close> (or
  \<open>Ok(0)\<close> after a clean close): there is an amount of buffered plaintext that every non-empty read
  decreases.\<close>

definition reader_law :: "'c rustls_api \<Rightarrow> ('c \<Rightarrow> nat) \<Rightarrow> bool" where
  "reader_law T buffered \<longleftrightarrow>
     (\<forall>c n bs c'. conn_reader_read T c n = (Inr bs, c') \<and> bs \<noteq> [] \<longrightarrow> buffered c' < buffered c)"

lemma drain_loop_returns:
  assumes "reader_law T buffered"
  shows "\<exists>new c'. drain_loop T c plain = Some (plain @ new, c')"
proof (induction "buffered c" arbitrary: c plain rule: less_induct)
  case less
  obtain r c1 where r: "conn_reader_read T c 4096 = (r, c1)" by force
  show ?case
  proof (cases "\<exists>bs. r = Inr bs \<and> bs \<noteq> []")
    case True
    then obtain bs where bs: "r = Inr bs" "bs \<noteq> []" by blast
    with assms r have "buffered c1 < buffered c" by (auto simp: reader_law_def)
    then obtain new c' where "drain_loop T c1 (plain @ bs) = Some ((plain @ bs) @ new, c')"
      using less.hyps by blast
    then show ?thesis using r bs by (subst drain_loop.simps) auto
  next
    case False
    then show ?thesis using r by (subst drain_loop.simps) (auto split: sum.splits)
  qed
qed

text \<open>\<open>feed\<close> never runs forever, and it only appends to the plaintext already received.\<close>

lemma feed_appends:
  assumes "reader_law T buffered"
  shows "\<exists>r new c'. TlsSession_feed T s data = (r, s\<lparr>conn := c', plaintext_in := plaintext_in s @ new\<rparr>)"
proof -
  obtain r c1 where f: "feed_loop T (conn s) data = (r, c1)" by force
  obtain new c2 where d: "drain_loop T c1 (plaintext_in s) = Some (plaintext_in s @ new, c2)"
    using drain_loop_returns [OF assms] by blast
  show ?thesis
  proof (cases r)
    case (Inl e)
    then have "TlsSession_feed T s data = (Inl e, s\<lparr>conn := c1, plaintext_in := plaintext_in s @ []\<rparr>)"
      using f by (simp add: TlsSession_feed_def)
    then show ?thesis by blast
  next
    case (Inr u)
    then have "TlsSession_feed T s data = (Ok (), s\<lparr>conn := c2, plaintext_in := plaintext_in s @ new\<rparr>)"
      using f d by (simp add: TlsSession_feed_def)
    then show ?thesis by blast
  qed
qed

end
