(* ===== verification/Net.thy ===== *)
theory Net
  imports Rust_Str
begin

text \<open>
  Addresses of the Rust standard library (an IPv4 address is its 32-bit number, an IPv6 address its
  128-bit number) and the per-session transport of \<open>src/src/transport.rs\<close>. A UDP session is the
  shared socket and the peer's address; a TCP session is the channel of its writer task, here the
  number of the accepted stream. Time is in milliseconds; \<open>duration_since\<close> saturates at zero, as
  the standard library documents, which is subtraction on natural numbers.
\<close>

type_synonym Ipv4Addr = "32 word"

type_synonym Ipv6Addr = "128 word"

datatype IpAddr = V4 Ipv4Addr | V6 Ipv6Addr

type_synonym SocketAddr = "IpAddr \<times> u16"

type_synonym instant = nat

type_synonym duration = nat

datatype Transport = Udp SocketAddr | Tcp nat

definition duration_since :: "instant \<Rightarrow> instant \<Rightarrow> duration" where
  "duration_since now t = now - t"

definition from_secs :: "nat \<Rightarrow> duration" where
  "from_secs n = n * 1000"

section \<open>\<open>Display\<close>\<close>

fun join :: "rstring \<Rightarrow> rstring list \<Rightarrow> rstring" where
  "join sep [] = []"
| "join sep [x] = x"
| "join sep (x # xs) = x @ sep @ join sep xs"

definition show_ipv4 :: "Ipv4Addr \<Rightarrow> rstring" where
  "show_ipv4 a = join ''.'' (map (\<lambda>b. show_dec (unat b)) (to_be_bytes a))"

definition hex_digit :: "nat \<Rightarrow> char" where
  "hex_digit n = (if n < 10 then char_of (48 + n) else char_of (87 + n))"

fun show_hex :: "nat \<Rightarrow> rstring" where
  "show_hex n = (if n < 16 then [hex_digit n] else show_hex (n div 16) @ [hex_digit (n mod 16)])"

declare show_hex.simps [simp del]

fun segments_of :: "bytes \<Rightarrow> nat list" where
  "segments_of (a # b # bs) = (unat a * 256 + unat b) # segments_of bs"
| "segments_of _ = []"

text \<open>The first longest run of zero segments, as the loop of the standard library finds it: \<open>i\<close> is
  the position, \<open>cs\<close>, \<open>cl\<close> start and length of the current run, \<open>ls\<close>, \<open>ll\<close> of the longest.\<close>

fun zero_run :: "nat list \<Rightarrow> nat \<Rightarrow> nat \<Rightarrow> nat \<Rightarrow> nat \<Rightarrow> nat \<Rightarrow> nat \<times> nat" where
  "zero_run [] i cs cl ls ll = (ls, ll)"
| "zero_run (x # xs) i cs cl ls ll =
     (if x = 0 then
        (let cs' = (if cl = 0 then i else cs); cl' = cl + 1
         in if cl' > ll then zero_run xs (i + 1) cs' cl' cs' cl' else zero_run xs (i + 1) cs' cl' ls ll)
      else zero_run xs (i + 1) 0 0 ls ll)"

definition show_ipv6 :: "Ipv6Addr \<Rightarrow> rstring" where
  "show_ipv6 a =
     (let segs = segments_of (to_be_bytes a); hexes = join '':''
      in if drop_bit 32 a = 0xFFFF then ''::ffff:'' @ show_ipv4 (ucast a)
         else let (start, len) = zero_run segs 0 0 0 0 0
              in if len > 1
                 then hexes (map show_hex (take start segs)) @ ''::'' @ hexes (map show_hex (drop (start + len) segs))
                 else hexes (map show_hex segs))"

fun show_ip :: "IpAddr \<Rightarrow> rstring" where
  "show_ip (V4 a) = show_ipv4 a"
| "show_ip (V6 a) = show_ipv6 a"

text \<open>What is printed for an address is ASCII without a NUL.\<close>

definition plain :: "rstring \<Rightarrow> bool" where
  "plain s \<longleftrightarrow> list_all (\<lambda>c. 0 < (of_char c :: nat) \<and> (of_char c :: nat) < 128) s"

lemma plain_simps [simp]:
  "plain []" "plain (c # s) \<longleftrightarrow> 0 < (of_char c :: nat) \<and> (of_char c :: nat) < 128 \<and> plain s"
  "plain (s @ t) \<longleftrightarrow> plain s \<and> plain t"
  by (simp_all add: plain_def)

lemma plain_join: "plain sep \<Longrightarrow> list_all plain xs \<Longrightarrow> plain (join sep xs)"
  by (induction sep xs rule: join.induct) simp_all

lemma plain_show_dec [simp]: "plain (show_dec n)"
  using show_dec_digits [of n] by (auto simp: plain_def list_all_iff)

lemma plain_hex_digit: "n < 16 \<Longrightarrow> plain [hex_digit n]"
  by (auto simp: hex_digit_def)

lemma plain_show_hex [simp]: "plain (show_hex n)"
proof (induction n rule: show_hex.induct)
  case (1 n)
  then show ?case using plain_hex_digit [of n] plain_hex_digit [of "n mod 16"]
    by (subst show_hex.simps) auto
qed

lemma plain_show_ipv4 [simp]: "plain (show_ipv4 a)"
  by (auto simp: show_ipv4_def list_all_iff intro!: plain_join)

lemma plain_show_ipv6 [simp]: "plain (show_ipv6 a)"
  by (auto simp: show_ipv6_def Let_def list_all_iff case_prod_beta intro!: plain_join)

lemma plain_show_ip [simp]: "plain (show_ip a)"
  by (cases a) simp_all

end
