(* ===== verification/Counter.thy ===== *)
theory Counter
  imports Prelude
begin

text \<open>
  Sources of identifiers. The program draws control packet ids, envelope replay ids, data packet
  ids and peer ids from counters that wrap. The locale \<open>id_source\<close> states the contract of such a
  counter (\<open>rank\<close> is its position in a cycle of \<open>period\<close> labels, and every draw returns the label of
  the rank and moves one step) and proves once that consecutive draws are distinct for one period.
  The components interpret it on their own counters.
\<close>

primrec draws :: "('s \<Rightarrow> 'i \<times> 's) \<Rightarrow> nat \<Rightarrow> 's \<Rightarrow> 'i list" where
  "draws draw 0 s = []"
| "draws draw (Suc n) s = (let (i, s') = draw s in i # draws draw n s')"

locale id_source =
  fixes draw :: "'s \<Rightarrow> 'i \<times> 's"
    and valid :: "'s \<Rightarrow> bool"
    and rank :: "'s \<Rightarrow> nat"
    and label :: "nat \<Rightarrow> 'i"
    and period :: nat
  assumes draw_label: "valid s \<Longrightarrow> fst (draw s) = label (rank s)"
    and draw_rank: "valid s \<Longrightarrow> rank (snd (draw s)) = (rank s + 1) mod period"
    and draw_valid: "valid s \<Longrightarrow> valid (snd (draw s))"
    and rank_bound: "valid s \<Longrightarrow> rank s < period"
    and label_inj: "inj_on label {..<period}"
begin

lemma draws_labels:
  "valid s \<Longrightarrow> draws draw n s = map (\<lambda>i. label ((rank s + i) mod period)) [0..<n]"
proof (induction n arbitrary: s)
  case (Suc n)
  let ?s = "snd (draw s)"
  have "draws draw n ?s = map (\<lambda>i. label ((rank ?s + i) mod period)) [0..<n]"
    using Suc draw_valid by blast
  also have "\<dots> = map (\<lambda>i. label ((rank s + i) mod period)) (map Suc [0..<n])"
    by (simp add: draw_rank [OF Suc.prems] mod_simps)
  finally have tl: "draws draw n ?s = map (\<lambda>i. label ((rank s + i) mod period)) [Suc 0..<Suc n]"
    by (simp only: map_Suc_upt)
  have hd: "fst (draw s) = label ((rank s + 0) mod period)"
    using Suc.prems by (simp add: draw_label rank_bound)
  have "draws draw (Suc n) s = fst (draw s) # draws draw n ?s" by (simp add: case_prod_beta Let_def)
  also have "\<dots> = map (\<lambda>i. label ((rank s + i) mod period)) (0 # [Suc 0..<Suc n])"
    by (simp only: tl hd list.map)
  also have "0 # [Suc 0..<Suc n] = [0..<Suc n]" by (simp only: upt_conv_Cons zero_less_Suc)
  finally show ?case .
qed simp

lemma shift_mod_le:
  "(r + i) mod period = (r + j) mod period \<Longrightarrow> i < period \<Longrightarrow> i \<le> j \<Longrightarrow> j < period \<Longrightarrow> i = j"
  using mod_eq_dvd_iff_nat [of "r + i" "r + j" period] dvd_imp_le [of period "j - i"] by fastforce

lemma shifted_inj: "n \<le> period \<Longrightarrow> inj_on (\<lambda>i. (r + i) mod period) {..<n}"
proof (rule inj_onI)
  fix i j assume *: "n \<le> period" "i \<in> {..<n}" "j \<in> {..<n}" "(r + i) mod period = (r + j) mod period"
  then show "i = j"
    using shift_mod_le [of r i j] shift_mod_le [of r j i] by (cases "i \<le> j") auto
qed

lemma draws_distinct:
  assumes "valid s" "n \<le> period"
  shows "distinct (draws draw n s)"
proof -
  have "0 < period" using rank_bound [OF assms(1)] by simp
  then have "(\<lambda>i. (rank s + i) mod period) ` {..<n} \<subseteq> {..<period}" by auto
  then have "inj_on (label \<circ> (\<lambda>i. (rank s + i) mod period)) {..<n}"
    using shifted_inj [OF assms(2)] label_inj by (auto intro: comp_inj_on inj_on_subset)
  then show ?thesis
    using assms(1) by (simp add: draws_labels distinct_map comp_def lessThan_atLeast0)
qed

lemma draws_in: "valid s \<Longrightarrow> set (draws draw n s) \<subseteq> label ` {..<period}"
  using rank_bound [of s] by (auto simp: draws_labels)

end

section \<open>32-bit counters\<close>

lemma unat32_bound [simp]: "unat (x :: u32) < 2 ^ 32"
  using unsigned_less [of x] by simp

lemma unat_word_of_nat32 [simp]: "n < 2 ^ 32 \<Longrightarrow> unat (word_of_nat n :: u32) = n"
  by (simp add: unsigned_of_nat take_bit_nat_eq_self)

lemma word_of_nat_inj32: "inj_on (word_of_nat :: nat \<Rightarrow> u32) {..<2 ^ 32}"
  by (rule inj_on_inverseI [where g = unat]) simp

lemma unat_succ32: "unat (x + 1 :: u32) = (unat x + 1) mod 2 ^ 32"
  by (simp add: unat_word_ariths)

lemma unat_max32: "unat (- 1 :: u32) = 2 ^ 32 - 1"
  by (simp add: unsigned_minus_1_eq_mask mask_eq_exp_minus_1)

end
