(* ===== verification/Session.thy ===== *)
theory Session
  imports Replay Protocol Crypto Tls Net Counter
begin

text \<open>
  Per-client connection state (\<open>src/src/session.rs\<close>): the control-channel reliability layer, the two
  data-channel key slots, rekey state and the construction of outbound packets. \<open>Instant::now()\<close> and
  the random octets an operation draws are arguments. Field prefixes keep the records apart: \<open>un_\<close>
  for \<open>Unacked\<close>, \<open>ks_\<close> for \<open>KeySlot\<close>, \<open>rk_\<close> for \<open>RekeyTrack\<close>, \<open>s_\<close> for \<open>Session\<close>; the type variable \<open>'c\<close> is
  the rustls connection.
\<close>

section \<open>Data\<close>

definition MAX_TLS_PAYLOAD_PER_CONTROL :: nat where
  "MAX_TLS_PAYLOAD_PER_CONTROL = 1100"

definition CONTROL_BASE_RTO :: duration where
  "CONTROL_BASE_RTO = from_secs 2"

definition CONTROL_MAX_ATTEMPTS :: u32 where
  "CONTROL_MAX_ATTEMPTS = 6"

record Unacked =
  un_packet_id :: u32
  un_encoded :: bytes
  un_sent_at :: instant
  un_attempts :: u32

record KeySlot =
  ks_key_id :: u8
  ks_cipher :: DataCipher
  ks_data_pid_out :: u32
  ks_replay :: ReplayWindow

datatype RekeyState = RkHandshaking | RkKeyExchange

record 'c RekeyTrack =
  rk_key_id :: u8
  rk_tls :: "'c TlsSession"
  rk_state :: RekeyState
  rk_server_random1 :: bytes
  rk_server_random2 :: bytes
  rk_key_method_sent :: bool

datatype State = WaitingHardReset | Handshaking | KeyExchange | PushPending | Established | Closed

record 'c Session =
  s_server_session_id :: u64
  s_client_session_id :: u64
  s_state :: State
  s_next_packet_id :: u32
  s_pending_acks :: "u32 list"
  s_received_pids :: "u32 set"
  s_tls :: "'c TlsSession"
  s_assigned_ip :: "IpAddr option"
  s_assigned_ip_v6 :: "Ipv6Addr option"
  s_peer_id :: u32
  s_transport :: Transport
  s_slots :: "KeySlot option list"
  s_active_slot_idx :: nat
  s_tls_auth_pid_out :: u32
  s_tls_auth_replay :: ReplayWindow
  s_client_random1 :: "bytes option"
  s_client_random2 :: "bytes option"
  s_client_pre_master :: "bytes option"
  s_server_random1 :: bytes
  s_server_random2 :: bytes
  s_client_options :: "rstring option"
  s_client_peer_info :: "rstring option"
  s_client_cn :: "rstring option"
  s_unacked :: "Unacked list"
  s_rekey :: "'c RekeyTrack option"
  s_last_rekey_at :: instant
  s_last_seen :: instant

section \<open>Operations\<close>

definition Session_new ::
  "u64 \<Rightarrow> 'c TlsSession \<Rightarrow> u32 \<Rightarrow> Transport \<Rightarrow> bytes \<Rightarrow> bytes \<Rightarrow> instant \<Rightarrow> 'c Session" where
  "Session_new server_session_id tls peer_id transport r1 r2 now =
     \<lparr>s_server_session_id = server_session_id, s_client_session_id = 0, s_state = WaitingHardReset,
      s_next_packet_id = 0, s_pending_acks = [], s_received_pids = {}, s_tls = tls,
      s_assigned_ip = None, s_assigned_ip_v6 = None, s_peer_id = peer_id, s_transport = transport,
      s_slots = [None, None], s_active_slot_idx = 0, s_tls_auth_pid_out = 1,
      s_tls_auth_replay = ReplayWindow_new, s_client_random1 = None, s_client_random2 = None,
      s_client_pre_master = None, s_server_random1 = r1, s_server_random2 = r2,
      s_client_options = None, s_client_peer_info = None, s_client_cn = None, s_unacked = [],
      s_rekey = None, s_last_rekey_at = now, s_last_seen = now\<rparr>"

definition start_rekey :: "u8 \<Rightarrow> 'c TlsSession \<Rightarrow> bytes \<Rightarrow> bytes \<Rightarrow> 'c Session \<Rightarrow> 'c Session" where
  "start_rekey new_key_id tls r1 r2 self =
     self\<lparr>s_rekey := Some \<lparr>rk_key_id = new_key_id, rk_tls = tls, rk_state = RkHandshaking,
                          rk_server_random1 = r1, rk_server_random2 = r2, rk_key_method_sent = False\<rparr>\<rparr>"

definition promote_slot :: "u8 \<Rightarrow> 'c Session \<Rightarrow> bool \<times> 'c Session" where
  "promote_slot key_id self =
     (case position (\<lambda>s. map_option ks_key_id s = Some key_id) (s_slots self) of
        Some idx \<Rightarrow> (True, self\<lparr>s_active_slot_idx := idx\<rparr>)
      | None \<Rightarrow> (False, self))"

definition record_sent :: "u32 \<Rightarrow> bytes \<Rightarrow> instant \<Rightarrow> 'c Session \<Rightarrow> 'c Session" where
  "record_sent packet_id encoded now self =
     self\<lparr>s_unacked := s_unacked self @
       [\<lparr>un_packet_id = packet_id, un_encoded = encoded, un_sent_at = now, un_attempts = 1\<rparr>]\<rparr>"

definition process_acks :: "u32 list \<Rightarrow> 'c Session \<Rightarrow> 'c Session" where
  "process_acks acks self =
     (if acks = [] then self
      else self\<lparr>s_unacked := filter (\<lambda>u. un_packet_id u \<notin> set acks) (s_unacked self)\<rparr>)"

text \<open>\<open>saturating_sub\<close> and \<open>saturating_add\<close> on \<open>u32\<close>.\<close>

definition saturating_sub :: "u32 \<Rightarrow> u32 \<Rightarrow> u32" where
  "saturating_sub a b = (if a < b then 0 else a - b)"

definition saturating_add :: "u32 \<Rightarrow> u32 \<Rightarrow> u32" where
  "saturating_add a b = (if unat a + unat b < 2 ^ 32 then a + b else - 1)"

text \<open>The body of the loop over \<open>unacked.iter_mut()\<close>, with what it pushes onto \<open>out\<close>.\<close>

definition stale_step :: "instant \<Rightarrow> duration \<Rightarrow> Unacked \<Rightarrow> bytes list \<times> Unacked" where
  "stale_step now base_rto u =
     (let shift = min (saturating_sub (un_attempts u) 1) 5;
          backoff = base_rto * unat (push_bit (unat shift) (1 :: u32))
      in if backoff \<le> duration_since now (un_sent_at u)
         then ([un_encoded u], u\<lparr>un_sent_at := now, un_attempts := saturating_add (un_attempts u) 1\<rparr>)
         else ([], u))"

fun stale_loop :: "instant \<Rightarrow> duration \<Rightarrow> Unacked list \<Rightarrow> bytes list \<times> Unacked list" where
  "stale_loop now base_rto [] = ([], [])"
| "stale_loop now base_rto (u # us) =
     (let (out, u') = stale_step now base_rto u;
          (outs, us') = stale_loop now base_rto us
      in (out @ outs, u' # us'))"

definition stale_unacked :: "instant \<Rightarrow> duration \<Rightarrow> 'c Session \<Rightarrow> bytes list \<times> 'c Session" where
  "stale_unacked now base_rto self =
     (let kept = filter (\<lambda>u. un_attempts u < CONTROL_MAX_ATTEMPTS) (s_unacked self);
          (out, us) = stale_loop now base_rto kept
      in (out, self\<lparr>s_unacked := us\<rparr>))"

definition alloc_packet_id :: "'c Session \<Rightarrow> u32 \<times> 'c Session" where
  "alloc_packet_id self = (s_next_packet_id self, self\<lparr>s_next_packet_id := s_next_packet_id self + 1\<rparr>)"

definition make_hard_reset_reply :: "u32 \<Rightarrow> 'c Session \<Rightarrow> ControlPacket \<times> 'c Session" where
  "make_hard_reset_reply ack_pid self =
     (let (pid, self) = alloc_packet_id self
      in (\<lparr>cp_op = ControlHardResetServerV2, cp_key_id = 0, cp_session_id = s_server_session_id self,
           cp_acks = [ack_pid], cp_remote_session_id = Some (s_client_session_id self),
           cp_packet_id = Some pid, cp_payload = []\<rparr>, self))"

definition make_soft_reset_reply :: "u8 \<Rightarrow> u32 \<Rightarrow> 'c Session \<Rightarrow> ControlPacket \<times> 'c Session" where
  "make_soft_reset_reply new_key_id ack_pid self =
     (let (pid, self) = alloc_packet_id self
      in (\<lparr>cp_op = ControlSoftResetV1, cp_key_id = new_key_id, cp_session_id = s_server_session_id self,
           cp_acks = [ack_pid], cp_remote_session_id = Some (s_client_session_id self),
           cp_packet_id = Some pid, cp_payload = []\<rparr>, self))"

definition make_soft_reset_init :: "u8 \<Rightarrow> 'c Session \<Rightarrow> ControlPacket \<times> 'c Session" where
  "make_soft_reset_init new_key_id self =
     (let (pid, self) = alloc_packet_id self
      in (\<lparr>cp_op = ControlSoftResetV1, cp_key_id = new_key_id, cp_session_id = s_server_session_id self,
           cp_acks = [], cp_remote_session_id = None, cp_packet_id = Some pid, cp_payload = []\<rparr>, self))"

definition make_ack :: "u8 \<Rightarrow> u32 list \<Rightarrow> 'c Session \<Rightarrow> ControlPacket" where
  "make_ack key_id pids self =
     \<lparr>cp_op = AckV1, cp_key_id = key_id, cp_session_id = s_server_session_id self, cp_acks = pids,
      cp_remote_session_id = Some (s_client_session_id self), cp_packet_id = None, cp_payload = []\<rparr>"

definition make_control :: "u8 \<Rightarrow> bytes \<Rightarrow> 'c Session \<Rightarrow> ControlPacket \<times> 'c Session" where
  "make_control key_id tls_payload self =
     (let (pid, self) = alloc_packet_id self;
          acks = s_pending_acks self;
          self = self\<lparr>s_pending_acks := []\<rparr>;
          remote = (if acks \<noteq> [] then Some (s_client_session_id self) else None)
      in (\<lparr>cp_op = ControlV1, cp_key_id = key_id, cp_session_id = s_server_session_id self,
           cp_acks = acks, cp_remote_session_id = remote, cp_packet_id = Some pid,
           cp_payload = tls_payload\<rparr>, self))"

text \<open>\<open>checked_add(1).unwrap_or(1)\<close>.\<close>

definition next_tls_auth_pid :: "'c Session \<Rightarrow> u32 \<times> 'c Session" where
  "next_tls_auth_pid self =
     (let p = s_tls_auth_pid_out self
      in (p, self\<lparr>s_tls_auth_pid_out := (if p = - 1 then 1 else p + 1)\<rparr>))"

definition note_received :: "u32 \<Rightarrow> instant \<Rightarrow> 'c Session \<Rightarrow> 'c Session" where
  "note_received pid now self =
     (let self = (if pid \<notin> s_received_pids self
                  then self\<lparr>s_received_pids := insert pid (s_received_pids self),
                            s_pending_acks := s_pending_acks self @ [pid]\<rparr>
                  else self)
      in self\<lparr>s_last_seen := now\<rparr>)"

definition finalize_keys :: "'c rustls_api \<Rightarrow> 'c Session \<Rightarrow> 'c Session" where
  "finalize_keys T self =
     (let self = (case conn_peer_leaf T (conn (s_tls self)) of
                    Some leaf \<Rightarrow> (case extract_common_name T leaf of
                                    Inr cn \<Rightarrow> self\<lparr>s_client_cn := cn\<rparr>
                                  | Inl e \<Rightarrow> self)
                  | None \<Rightarrow> self)
      in self\<lparr>s_state := KeyExchange\<rparr>)"

definition active_slot :: "'c Session \<Rightarrow> KeySlot option" where
  "active_slot self = s_slots self ! s_active_slot_idx self"

definition set_slot :: "nat \<Rightarrow> KeySlot \<Rightarrow> 'c Session \<Rightarrow> 'c Session" where
  "set_slot idx slot self = self\<lparr>s_slots := (s_slots self)[idx := Some slot]\<rparr>"

text \<open>\<open>slot_by_key_id_mut\<close>: the position and value of the slot the caller may update.\<close>

definition slot_by_key_id :: "u8 \<Rightarrow> 'c Session \<Rightarrow> (nat \<times> KeySlot) option" where
  "slot_by_key_id key_id self =
     (case position (\<lambda>s. map_option ks_key_id s = Some key_id) (s_slots self) of
        Some idx \<Rightarrow> (case s_slots self ! idx of Some k \<Rightarrow> Some (idx, k) | None \<Rightarrow> None)
      | None \<Rightarrow> None)"

definition install_slot :: "KeySlot \<Rightarrow> 'c Session \<Rightarrow> 'c Session" where
  "install_slot slot self = set_slot (1 - s_active_slot_idx self) slot self"

definition new_slot :: "u8 \<Rightarrow> bytes \<Rightarrow> KeySlot" where
  "new_slot key_id key_data =
     \<lparr>ks_key_id = key_id, ks_cipher = DataCipher_from_keymat_server key_data, ks_data_pid_out = 1,
      ks_replay = ReplayWindow_new\<rparr>"

definition install_prf_slot :: "crypto_api \<Rightarrow> u8 \<Rightarrow> 'c Session \<Rightarrow> unit result \<times> 'c Session" where
  "install_prf_slot A key_id self =
     (case and_then (ok_or (s_client_pre_master self) (Bail ''install_prf_slot: missing client pre_master'' []))
        (\<lambda>pre_master. and_then (ok_or (s_client_random1 self) (Bail ''install_prf_slot: missing client random1'' []))
        (\<lambda>c_r1. and_then (ok_or (s_client_random2 self) (Bail ''install_prf_slot: missing client random2'' []))
        (\<lambda>c_r2. returned (derive_openvpn_key_data A pre_master c_r1 (s_server_random1 self) c_r2
                   (s_server_random2 self) (to_be_bytes (s_client_session_id self))
                   (to_be_bytes (s_server_session_id self)))))) of
        Inl e \<Rightarrow> (Inl e, self)
      | Inr key_data \<Rightarrow>
          (let slot = new_slot key_id key_data
           in (Ok (), if active_slot self = None
                      then (set_slot 0 slot self)\<lparr>s_active_slot_idx := 0\<rparr>
                      else install_slot slot self)))"

definition data_header :: "u8 \<Rightarrow> u32 \<Rightarrow> u32 \<Rightarrow> bytes" where
  "data_header key_id peer_id pid =
     [push_bit 3 (OpCode_as_u8 DataV2) OR (key_id AND 0x07),
      ucast (drop_bit 16 peer_id AND 0xFF), ucast (drop_bit 8 peer_id AND 0xFF), ucast (peer_id AND 0xFF)]
     @ to_be_bytes pid"

definition build_data_packet :: "crypto_api \<Rightarrow> bytes \<Rightarrow> 'c Session \<Rightarrow> bytes result \<times> 'c Session" where
  "build_data_packet A plaintext self =
     (case active_slot self of
        None \<Rightarrow> (bail ''no active key slot'', self)
      | Some slot \<Rightarrow>
          (let pid = ks_data_pid_out slot;
               self = set_slot (s_active_slot_idx self) (slot\<lparr>ks_data_pid_out := pid + 1\<rparr>) self;
               header = data_header (ks_key_id slot) (s_peer_id self) pid
           in (and_then (DataCipher_seal A (ks_cipher slot) pid header plaintext) (\<lambda>ct. Ok (header @ ct)),
               self)))"

end
