(* ===== verification/Session_Props.thy ===== *)
theory Session_Props
  imports Session "HOL-Library.Sublist"
begin

text \<open>
  What the operations of \<open>src/src/session.rs\<close> guarantee: identifiers are fresh, retransmission is
  bounded and backs off, acknowledgements, the two key slots across a rekey, and the data packets a
  session builds.
\<close>

section \<open>Identifiers\<close>

interpretation packet_ids: id_source alloc_packet_id "\<lambda>_. True" "\<lambda>s. unat (s_next_packet_id s)"
  word_of_nat "2 ^ 32"
  by unfold_locales (simp_all only: alloc_packet_id_def unat_succ32 unat32_bound word_of_nat_inj32,
      simp_all add: unat_succ32)

interpretation data_pids: id_source "\<lambda>p :: u32. (p, p + 1)" "\<lambda>_. True" unat word_of_nat "2 ^ 32"
  by unfold_locales (simp_all only: unat_succ32 unat32_bound word_of_nat_inj32, simp_all add: unat_succ32)

lemma tls_auth_rank:
  fixes p :: u32
  assumes "p \<noteq> 0"
  shows "unat (if p = - 1 then 1 else p + 1) - 1 = (unat p - 1 + 1) mod (2 ^ 32 - 1)"
proof (cases "p = - 1")
  case True
  then show ?thesis by (simp add: unat_max32)
next
  case False
  from assms have p0: "0 < unat p" by (simp add: unat_gt_0)
  have "unat p \<noteq> unat (- 1 :: u32)" using False by (simp only: word_unat_eq_iff) simp
  with unat32_bound [of p] have lt: "unat p < 2 ^ 32 - 1" by (simp add: unat_max32)
  then have "unat (p + 1) = unat p + 1" by (simp add: unat_succ32)
  then show ?thesis using False lt p0 by simp
qed

interpretation envelope_pids: id_source next_tls_auth_pid "\<lambda>s. s_tls_auth_pid_out s \<noteq> 0"
  "\<lambda>s. unat (s_tls_auth_pid_out s) - 1" "\<lambda>i. word_of_nat (Suc i)" "2 ^ 32 - 1"
proof unfold_locales
  fix s :: "'a Session"
  let ?p = "s_tls_auth_pid_out s"
  assume nz: "?p \<noteq> 0"
  then have p0: "0 < unat ?p" by (simp add: unat_gt_0)
  then show "fst (next_tls_auth_pid s) = word_of_nat (Suc (unat ?p - 1))"
    by (simp add: next_tls_auth_pid_def Let_def)
  show "unat (s_tls_auth_pid_out (snd (next_tls_auth_pid s))) - 1 = (unat ?p - 1 + 1) mod (2 ^ 32 - 1)"
    using tls_auth_rank [OF nz] by (simp add: next_tls_auth_pid_def Let_def)
  show "s_tls_auth_pid_out (snd (next_tls_auth_pid s)) \<noteq> 0"
    by (simp add: next_tls_auth_pid_def Let_def eq_neg_iff_add_eq_0 [symmetric])
  show "unat ?p - 1 < 2 ^ 32 - 1" using p0 unat32_bound [of ?p] by linarith
next
  show "inj_on (\<lambda>i. word_of_nat (Suc i) :: u32) {..<2 ^ 32 - 1}"
    by (rule inj_on_inverseI [where g = "\<lambda>w. unat w - 1"]) (simp del: of_nat_Suc)
qed

lemma next_tls_auth_pid_fresh:
  assumes "s_tls_auth_pid_out s \<noteq> 0" and "n \<le> 2 ^ 32 - 1"
  shows "distinct (draws next_tls_auth_pid n s) \<and> 0 \<notin> set (draws next_tls_auth_pid n s)"
proof -
  have "word_of_nat (Suc i) \<noteq> (0 :: u32)" if "i < 2 ^ 32 - 1" for i
  proof
    assume "word_of_nat (Suc i) = (0 :: u32)"
    then have "unat (word_of_nat (Suc i) :: u32) = 0" by (simp only: unsigned_0)
    with that show False by (simp del: of_nat_Suc)
  qed
  then have "0 \<notin> (\<lambda>i. word_of_nat (Suc i) :: u32) ` {..<2 ^ 32 - 1}" by force
  then show ?thesis
    using envelope_pids.draws_distinct [OF assms] envelope_pids.draws_in [OF assms(1), of n] by blast
qed

text \<open>C29: the replay ids stamped on outbound control packets never repeat within \<open>2 ^ 32 - 1\<close>
  consecutive packets (retransmissions included, each draws anew) and are never 0, also across the
  wrap-around.\<close>

theorem envelope_ids_fresh:
  assumes "s_tls_auth_pid_out s \<noteq> 0" and "n \<le> 2 ^ 32 - 1"
  shows "distinct (draws next_tls_auth_pid n s) \<and> 0 \<notin> set (draws next_tls_auth_pid n s)"
  using assms by (rule next_tls_auth_pid_fresh)

text \<open>A session for the witnesses, as the server creates it.\<close>

definition example_session :: "unit Session" where
  "example_session =
     (Session_new 11 \<lparr>conn = (), plaintext_in = []\<rparr> 1 (Udp (V4 0x0A000001, 1194))
        (replicate 32 1) (replicate 32 2) 0)\<lparr>s_client_session_id := 22\<rparr>"

theorem envelope_ids_fresh_witness:
  "s_tls_auth_pid_out example_session \<noteq> 0 \<and> (3 :: nat) \<le> 2 ^ 32 - 1 \<and>
   distinct (draws next_tls_auth_pid 3 example_session) \<and>
   0 \<notin> set (draws next_tls_auth_pid 3 example_session)"
  using envelope_ids_fresh [of example_session 3]
  by (simp add: example_session_def Session_new_def)

section \<open>Retransmission\<close>

text \<open>The retransmit timer calling \<open>stale_unacked\<close> at the times \<open>ts\<close>, with what it resends and when.\<close>

fun resends :: "duration \<Rightarrow> instant list \<Rightarrow> 'c Session \<Rightarrow> (instant \<times> bytes) list \<times> 'c Session" where
  "resends rto [] s = ([], s)"
| "resends rto (t # ts) s =
     (let (out, s1) = stale_unacked t rto s;
          (outs, s2) = resends rto ts s1
      in (map (Pair t) out @ outs, s2))"

lemma small_attempts:
  fixes a :: u32
  assumes "1 \<le> unat a" "unat a \<le> 6"
  shows "a \<in> {1, 2, 3, 4, 5, 6}"
proof -
  have "unat a \<in> {1, 2, 3, 4, 5, 6}" using assms by auto
  then have "word_of_nat (unat a) \<in> (word_of_nat :: nat \<Rightarrow> u32) ` {1, 2, 3, 4, 5, 6}" by blast
  then show ?thesis by simp
qed

lemma backoff_power:
  fixes a :: u32
  assumes "1 \<le> unat a" "unat a \<le> 6"
  shows "unat (push_bit (unat (min (saturating_sub a 1) 5)) (1 :: u32)) = 2 ^ (unat a - 1)"
  using small_attempts [OF assms] by (auto simp: saturating_sub_def)

lemma backoff_bound:
  fixes a :: u32
  shows "unat (push_bit (unat (min (saturating_sub a 1) 5)) (1 :: u32)) \<le> 32"
proof -
  let ?n = "unat (min (saturating_sub a 1) (5 :: u32))"
  have "?n \<le> unat (5 :: u32)" by (simp only: word_le_nat_alt [symmetric]) simp
  then have "?n \<in> {0, 1, 2, 3, 4, 5}" by auto
  then show ?thesis by auto
qed

lemma attempts_less_max: "a < CONTROL_MAX_ATTEMPTS \<longleftrightarrow> unat a < 6"
  by (simp add: CONTROL_MAX_ATTEMPTS_def word_less_nat_alt)

lemma bumped_attempts: "unat a < 6 \<Longrightarrow> unat (saturating_add a 1) = unat a + 1"
  by (simp add: saturating_add_def unat_succ32)

lemma stale_one:
  assumes "s_unacked s = [u]" "1 \<le> unat (un_attempts u)"
  shows "stale_unacked t rto s =
    (if 6 \<le> unat (un_attempts u) then ([], s\<lparr>s_unacked := []\<rparr>)
     else if rto * 2 ^ (unat (un_attempts u) - 1) \<le> t - un_sent_at u
     then ([un_encoded u], s\<lparr>s_unacked := [u\<lparr>un_sent_at := t, un_attempts := saturating_add (un_attempts u) 1\<rparr>]\<rparr>)
     else ([], s))"
  using assms backoff_power [of "un_attempts u"]
  by (simp add: stale_unacked_def attempts_less_max stale_step_def Let_def duration_since_def)

lemma stale_empty: "s_unacked s = [] \<Longrightarrow> fst (resends rto ts s) = []"
  by (induction ts arbitrary: s) (simp_all add: stale_unacked_def case_prod_beta)

lemma resends_schedule:
  assumes "s_unacked s = [u]" "1 \<le> unat (un_attempts u)"
  shows "let times = map fst (fst (resends rto ts s))
         in length times \<le> 6 - unat (un_attempts u) \<and>
            (\<forall>k < length times. rto * 2 ^ (unat (un_attempts u) - 1 + k)
               \<le> (un_sent_at u # times) ! Suc k - (un_sent_at u # times) ! k)"
  using assms
proof (induction ts arbitrary: s u)
  case Nil
  then show ?case by simp
next
  case (Cons t ts)
  let ?a = "unat (un_attempts u)"
  consider "6 \<le> ?a" | "?a < 6" "rto * 2 ^ (?a - 1) \<le> t - un_sent_at u"
    | "?a < 6" "\<not> rto * 2 ^ (?a - 1) \<le> t - un_sent_at u" by linarith
  then show ?case
  proof cases
    case 1
    then show ?thesis using stale_one [OF Cons.prems] by (simp add: stale_empty case_prod_beta)
  next
    case 3
    then show ?thesis using stale_one [OF Cons.prems] Cons.IH [OF Cons.prems] by (simp add: case_prod_beta Let_def)
  next
    case 2
    let ?u = "u\<lparr>un_sent_at := t, un_attempts := saturating_add (un_attempts u) 1\<rparr>"
    let ?times = "map fst (fst (resends rto ts (s\<lparr>s_unacked := [?u]\<rparr>)))"
    have a: "unat (un_attempts ?u) = ?a + 1" using bumped_attempts [OF 2(1)] by simp
    have IH: "length ?times \<le> 5 - ?a"
      "\<And>k. k < length ?times \<Longrightarrow> rto * 2 ^ (?a + k) \<le> (t # ?times) ! Suc k - (t # ?times) ! k"
      using Cons.IH [of "s\<lparr>s_unacked := [?u]\<rparr>" ?u] a by (simp_all add: Let_def)
    have "map fst (fst (resends rto (t # ts) s)) = t # ?times"
      using stale_one [OF Cons.prems] 2 by (simp add: case_prod_beta)
    moreover have "rto * 2 ^ (?a - 1 + k) \<le> (un_sent_at u # t # ?times) ! Suc k - (un_sent_at u # t # ?times) ! k"
      if "k < Suc (length ?times)" for k
      using IH(2) that 2(2) Cons.prems(2) by (cases k) simp_all
    ultimately show ?thesis using IH(1) 2(1) by (simp add: Let_def)
  qed
qed



text \<open>Ticks of the timer that are at least \<open>g\<close> apart, the first one \<open>g\<close> after \<open>t\<close>.\<close>

fun spaced :: "duration \<Rightarrow> instant \<Rightarrow> instant list \<Rightarrow> bool" where
  "spaced g t [] = True"
| "spaced g t (x # xs) = (t + g \<le> x \<and> spaced g x xs)"

lemma stale_step_due:
  assumes "un_sent_at u + 32 * rto \<le> t"
  shows "stale_step t rto u = ([un_encoded u], u\<lparr>un_sent_at := t, un_attempts := saturating_add (un_attempts u) 1\<rparr>)"
proof -
  have "rto * unat (push_bit (unat (min (saturating_sub (un_attempts u) 1) 5)) (1 :: u32)) \<le> rto * 32"
    using backoff_bound by (rule mult_le_mono2)
  with assms have "rto * unat (push_bit (unat (min (saturating_sub (un_attempts u) 1) 5)) (1 :: u32))
      \<le> t - un_sent_at u" by linarith
  then show ?thesis by (simp add: stale_step_def Let_def duration_since_def)
qed

lemma stale_loop_due:
  "\<forall>u \<in> set us. un_sent_at u + 32 * rto \<le> t \<Longrightarrow>
   snd (stale_loop t rto us) = map (\<lambda>u. u\<lparr>un_sent_at := t, un_attempts := saturating_add (un_attempts u) 1\<rparr>) us"
  by (induction us) (simp_all add: stale_step_due case_prod_beta Let_def)

lemma stale_unacked_due:
  assumes "\<forall>u \<in> set (s_unacked s). un_sent_at u + 32 * rto \<le> t"
  shows "s_unacked (snd (stale_unacked t rto s)) =
    map (\<lambda>u. u\<lparr>un_sent_at := t, un_attempts := saturating_add (un_attempts u) 1\<rparr>)
      (filter (\<lambda>u. unat (un_attempts u) < 6) (s_unacked s))"
  using stale_loop_due [of "filter (\<lambda>u. unat (un_attempts u) < 6) (s_unacked s)" rto t] assms
  by (simp add: stale_unacked_def attempts_less_max case_prod_beta Let_def)

lemma resends_nothing: "s_unacked s = [] \<Longrightarrow> s_unacked (snd (resends rto ts s)) = []"
  by (induction ts arbitrary: s) (simp_all add: stale_unacked_def case_prod_beta)

lemma resends_exhaust:
  assumes "\<forall>u \<in> set (s_unacked s). un_sent_at u \<le> t0 \<and> a \<le> unat (un_attempts u)"
    and "spaced (32 * rto) t0 ts" and "7 \<le> a + length ts" and "a \<le> 6"
  shows "s_unacked (snd (resends rto ts s)) = []"
  using assms
proof (induction ts arbitrary: s t0 a)
  case Nil
  then show ?case by simp
next
  case (Cons t ts)
  let ?s = "snd (stale_unacked t rto s)"
  have due: "\<forall>u \<in> set (s_unacked s). un_sent_at u + 32 * rto \<le> t" using Cons.prems by fastforce
  have *: "\<forall>u \<in> set (s_unacked ?s). un_sent_at u \<le> t \<and> Suc a \<le> unat (un_attempts u)"
    using Cons.prems(1) by (auto simp: stale_unacked_due [OF due] bumped_attempts)
  have "s_unacked (snd (resends rto ts ?s)) = []"
  proof (cases "a = 6")
    case True
    then have "s_unacked ?s = []" using Cons.prems(1) by (auto simp: stale_unacked_due [OF due] filter_empty_conv)
    then show ?thesis by (rule resends_nothing)
  next
    case False
    then show ?thesis using Cons.prems by (intro Cons.IH [OF *]) auto
  qed
  then show ?case by (simp add: case_prod_beta Let_def)
qed

text \<open>C26: the queue of unacknowledged packets is bounded in time: if nothing is acknowledged and the
  timer fires six times with at least the longest backoff (32 times the base) between, every
  packet that was in the queue is given up.\<close>

theorem retransmission_gives_up:
  assumes "\<forall>u \<in> set (s_unacked s). un_sent_at u \<le> t0 \<and> 1 \<le> unat (un_attempts u)"
    and "spaced (32 * rto) t0 ts" and "6 \<le> length ts"
  shows "s_unacked (snd (resends rto ts s)) = []"
  using assms by (intro resends_exhaust [where a = 1 and ?t0.0 = t0]) auto

theorem retransmission_gives_up_witness:
  "let s = record_sent 1 [8] 5 (record_sent 0 [7] 0 example_session);
       ts = [100000, 200000, 300000, 400000, 500000, 600000]
   in (\<forall>u \<in> set (s_unacked s). un_sent_at u \<le> 10 \<and> 1 \<le> unat (un_attempts u)) \<and>
      spaced (32 * 2000) 10 ts \<and> 6 \<le> length ts \<and> s_unacked (snd (resends 2000 ts s)) = []"
proof -
  let ?s = "record_sent 1 [8] 5 (record_sent 0 [7] 0 example_session)"
  let ?ts = "[100000, 200000, 300000, 400000, 500000, 600000] :: nat list"
  have "\<forall>u \<in> set (s_unacked ?s). un_sent_at u \<le> 10 \<and> 1 \<le> unat (un_attempts u)"
    "spaced (32 * 2000) 10 ?ts" "6 \<le> length ?ts"
    by (simp_all add: record_sent_def example_session_def Session_new_def)
  with retransmission_gives_up [OF this(1) this(2) this(3)] show ?thesis unfolding Let_def by blast
qed

section \<open>Acknowledgements\<close>

lemma stale_step_encoded:
  "set (fst (stale_step now rto u)) \<subseteq> {un_encoded u}" "un_encoded (snd (stale_step now rto u)) = un_encoded u"
  by (simp_all add: stale_step_def Let_def)

lemma stale_loop_encoded:
  "set (fst (stale_loop now rto us)) \<subseteq> un_encoded ` set us \<and>
   un_encoded ` set (snd (stale_loop now rto us)) = un_encoded ` set us"
proof (induction us)
  case (Cons u us)
  then show ?case using stale_step_encoded [of now rto u] by (auto simp: case_prod_beta Let_def)
qed simp

lemma stale_unacked_encoded:
  "set (fst (stale_unacked now rto s)) \<subseteq> un_encoded ` set (s_unacked s)"
  "un_encoded ` set (s_unacked (snd (stale_unacked now rto s))) \<subseteq> un_encoded ` set (s_unacked s)"
  using stale_loop_encoded [of now rto "filter (\<lambda>u. un_attempts u < CONTROL_MAX_ATTEMPTS) (s_unacked s)"]
  by (auto simp: stale_unacked_def case_prod_beta Let_def)

lemma resends_encoded: "snd ` set (fst (resends rto ts s)) \<subseteq> un_encoded ` set (s_unacked s)"
proof (induction ts arbitrary: s)
  case (Cons t ts)
  from Cons [of "snd (stale_unacked t rto s)"] stale_unacked_encoded [of t rto s]
  have "snd ` set (fst (resends rto ts (snd (stale_unacked t rto s)))) \<subseteq> un_encoded ` set (s_unacked s)"
    "set (fst (stale_unacked t rto s)) \<subseteq> un_encoded ` set (s_unacked s)" by blast+
  then show ?case by (auto simp: case_prod_beta Let_def)
qed simp

text \<open>C27: after an acknowledgement is processed, whatever the retransmit timer ever resends was
  queued under an id the acknowledgement did not name: an acknowledged packet is never resent.\<close>

theorem acked_never_resent:
  "snd ` set (fst (resends rto ts (process_acks acks s))) \<subseteq>
     un_encoded ` {u \<in> set (s_unacked s). un_packet_id u \<notin> set acks}"
  using resends_encoded [of rto ts "process_acks acks s"] by (auto simp: process_acks_def split: if_splits)

text \<open>The reception of several control packets.\<close>

fun note_all :: "(u32 \<times> instant) list \<Rightarrow> 'c Session \<Rightarrow> 'c Session" where
  "note_all [] s = s"
| "note_all ((pid, now) # ps) s = note_all ps (note_received pid now s)"

lemma note_received_simps [simp]:
  "s_pending_acks (note_received pid now s) =
     (if pid \<in> s_received_pids s then s_pending_acks s else s_pending_acks s @ [pid])"
  "s_received_pids (note_received pid now s) = insert pid (s_received_pids s)"
  by (auto simp: note_received_def Let_def)

lemma note_all_pending:
  assumes "set (s_pending_acks s) \<subseteq> s_received_pids s" "distinct (s_pending_acks s)"
  shows "distinct (s_pending_acks (note_all ps s)) \<and>
    set (s_pending_acks (note_all ps s)) = set (s_pending_acks s) \<union> (fst ` set ps - s_received_pids s)"
  using assms
proof (induction ps s rule: note_all.induct)
  case (2 pid now ps s)
  have "set (s_pending_acks (note_received pid now s)) \<subseteq> s_received_pids (note_received pid now s)"
    "distinct (s_pending_acks (note_received pid now s))" using "2.prems" by auto
  from "2.IH" [OF this] show ?case using "2.prems" by auto
qed simp

text \<open>C30: each control packet id is queued for acknowledgement at most once, the first time it is
  received, however often the peer repeats it; every id received for the first time is queued.\<close>

theorem received_acked_once:
  assumes "set (s_pending_acks s) \<subseteq> s_received_pids s" and "distinct (s_pending_acks s)"
  shows "distinct (s_pending_acks (note_all ps s)) \<and>
    set (s_pending_acks (note_all ps s)) = set (s_pending_acks s) \<union> (fst ` set ps - s_received_pids s)"
  using assms by (rule note_all_pending)

theorem received_acked_once_witness:
  "let ps = [(0, 1), (1, 2), (0, 3)] :: (u32 \<times> instant) list
   in set (s_pending_acks example_session) \<subseteq> s_received_pids example_session \<and>
      distinct (s_pending_acks example_session) \<and>
      distinct (s_pending_acks (note_all ps example_session)) \<and>
      set (s_pending_acks (note_all ps example_session)) =
        set (s_pending_acks example_session) \<union> (fst ` set ps - s_received_pids example_session)"
proof -
  have h: "set (s_pending_acks example_session) \<subseteq> s_received_pids example_session"
    "distinct (s_pending_acks example_session)" by (simp_all add: example_session_def Session_new_def)
  show ?thesis unfolding Let_def by (rule conjI [OF h(1) conjI [OF h(2) received_acked_once [OF h]]])
qed

section \<open>Key slots\<close>

text \<open>There are always two slots, and the index of the active one is a position of the array: no
  slot access of the source is out of bounds.\<close>

definition slots_ok :: "'c Session \<Rightarrow> bool" where
  "slots_ok s \<longleftrightarrow> length (s_slots s) = 2 \<and> s_active_slot_idx s < 2"

lemma slots_ok_new [simp]: "slots_ok (Session_new sid tls peer tr r1 r2 now)"
  by (simp add: slots_ok_def Session_new_def)

lemma slots_ok_set [simp]: "slots_ok s \<Longrightarrow> slots_ok (set_slot i k s)"
  by (simp add: slots_ok_def set_slot_def)

lemma slots_ok_promote: "slots_ok s \<Longrightarrow> slots_ok (snd (promote_slot k s))"
  using position_Some [of _ "s_slots s"] by (auto simp: slots_ok_def promote_slot_def split: option.splits)

lemma slots_ok_install_slot: "slots_ok s \<Longrightarrow> slots_ok (install_slot k s)"
  by (simp add: install_slot_def)

lemma slots_ok_install_prf: "slots_ok s \<Longrightarrow> slots_ok (snd (install_prf_slot A k s))"
  by (auto simp: install_prf_slot_def Let_def install_slot_def slots_ok_def set_slot_def split: sum.splits)

lemma slots_ok_build: "slots_ok s \<Longrightarrow> slots_ok (snd (build_data_packet A pt s))"
  by (simp add: build_data_packet_def Let_def split: option.splits)

lemma slots_two:
  assumes "slots_ok s"
  obtains a b where "s_slots s = [a, b]"
  using assms by (auto simp: slots_ok_def numeral_2_eq_2 length_Suc_conv)

text \<open>Two different slots hold different key ids.\<close>

definition distinct_keys :: "'c Session \<Rightarrow> bool" where
  "distinct_keys s \<longleftrightarrow> distinct (List.map_filter (map_option ks_key_id) (s_slots s))"

text \<open>A rekey rotates the keys without a gap. With the new key material under a key id that
  differs from the active one's, installing and promoting the new slot makes it the sending slot
  with packet id 1 and an empty replay window, while the slot that was active before is still
  found under its own key id, unchanged, for the packets in flight.\<close>

theorem rekey_keeps_old_key:
  assumes "slots_ok s" and "active_slot s = Some old" and "ks_key_id old \<noteq> k"
  shows "\<exists>s'. promote_slot k (install_slot (new_slot k km) s) = (True, s') \<and> slots_ok s' \<and>
    active_slot s' = Some (new_slot k km) \<and>
    map_option snd (slot_by_key_id (ks_key_id old) s') = Some old \<and>
    map_option snd (slot_by_key_id k s') = Some (new_slot k km) \<and> distinct_keys s'"
proof -
  obtain a b where ab: "s_slots s = [a, b]" using assms(1) by (rule slots_two)
  consider "s_active_slot_idx s = 0" | "s_active_slot_idx s = 1"
    using assms(1) by (auto simp: slots_ok_def less_2_cases_iff)
  then show ?thesis
    using assms ab
    by cases (auto simp: promote_slot_def install_slot_def set_slot_def active_slot_def slots_ok_def
        slot_by_key_id_def new_slot_def distinct_keys_def map_filter_simps)
qed

theorem rekey_keeps_old_key_witness:
  "let s = set_slot 0 (new_slot 0 (replicate 256 1)) example_session
   in slots_ok s \<and> active_slot s = Some (new_slot 0 (replicate 256 1)) \<and>
      ks_key_id (new_slot 0 (replicate 256 1)) \<noteq> 1 \<and>
      (\<exists>s'. promote_slot 1 (install_slot (new_slot 1 (replicate 256 2)) s) = (True, s') \<and> slots_ok s' \<and>
        active_slot s' = Some (new_slot 1 (replicate 256 2)) \<and>
        map_option snd (slot_by_key_id (ks_key_id (new_slot 0 (replicate 256 1))) s')
          = Some (new_slot 0 (replicate 256 1)) \<and>
        map_option snd (slot_by_key_id 1 s') = Some (new_slot 1 (replicate 256 2)) \<and> distinct_keys s')"
proof -
  let ?s = "set_slot 0 (new_slot 0 (replicate 256 1)) example_session"
  have "slots_ok ?s" "active_slot ?s = Some (new_slot 0 (replicate 256 1))"
    by (simp_all add: slots_ok_def active_slot_def set_slot_def example_session_def Session_new_def)
  moreover have "ks_key_id (new_slot 0 (replicate 256 1)) \<noteq> 1" by (simp add: new_slot_def)
  ultimately show ?thesis
    using rekey_keeps_old_key [of ?s "new_slot 0 (replicate 256 1)" 1 "replicate 256 2"]
    unfolding Let_def by blast
qed

section \<open>Data packets\<close>

lemma length_data_header [simp, wire_len]: "length (data_header k p pid) = 8"
  by (simp add: data_header_def)

lemma peer_id_octets:
  fixes p :: u32
  assumes "p < 2 ^ 24"
  shows "push_bit 16 (ucast (ucast (drop_bit 16 p AND 0xFF) :: u8))
           OR push_bit 8 (ucast (ucast (drop_bit 8 p AND 0xFF) :: u8)) OR ucast (ucast (p AND 0xFF) :: u8) = p"
proof (rule bit_word_eqI)
  fix n assume "n < LENGTH(32)"
  have hi: "\<not> bit p n" if "24 \<le> n" "n < 32"
  proof -
    have "unat p < 2 ^ 24" using assms by (simp add: word_less_nat_alt)
    then have "take_bit 24 p = p"
      by (simp add: word_unat_eq_iff unsigned_take_bit_eq take_bit_nat_eq_self)
    then show ?thesis using that by (metis bit_take_bit_iff not_less)
  qed
  have ff: "(0xFF :: u32) = mask 8" by (simp add: mask_eq_exp_minus_1)
  show "bit (push_bit 16 (ucast (ucast (drop_bit 16 p AND 0xFF) :: u8))
           OR push_bit 8 (ucast (ucast (drop_bit 8 p AND 0xFF) :: u8)) OR ucast (ucast (p AND 0xFF) :: u8) :: u32) n
        = bit p n"
  proof (cases "n < 16")
    case True
    then show ?thesis unfolding ff by (cases "n < 8") (auto simp: bit_simps)
  next
    case False
    then obtain m where m: "n = 16 + m" using le_Suc_ex [of 16 n] by auto
    show ?thesis using hi \<open>n < LENGTH(32)\<close> unfolding ff m by (cases "m < 8") (auto simp: bit_simps)
  qed
qed

lemma parse_data_header:
  assumes "k AND 7 = k" "p < 2 ^ 24"
  shows "DataPacketV2_parse (data_header k p pid @ ct) =
         Ok \<lparr>dp_key_id = k, dp_peer_id = p, dp_packet_id = pid, dp_ciphertext = ct\<rparr>"
proof -
  obtain b0 b1 b2 b3 where b: "to_be_bytes pid = [b0, b1, b2, b3]" "from_be_bytes [b0, b1, b2, b3] = pid"
  proof -
    have "length (to_be_bytes pid) = Suc (Suc (Suc (Suc 0)))" by simp
    then obtain b0 b1 b2 b3 where e: "to_be_bytes pid = [b0, b1, b2, b3]"
      by (auto simp only: length_Suc_conv length_0_conv)
    then show thesis using that [OF e] from_to_be(2) [of pid] by simp
  qed
  show ?thesis using assms(1) peer_id_octets [OF assms(2)] op_byte_op [of DataV2 k] op_byte_key [of DataV2 k] b
    by (simp add: DataPacketV2_parse_def data_header_def op_byte_def)
qed

lemma build_data_packet_Ok:
  assumes "build_data_packet A pt s = (Ok pkt, s')"
  obtains slot ct where "active_slot s = Some slot"
    "DataCipher_seal A (ks_cipher slot) (ks_data_pid_out slot)
       (data_header (ks_key_id slot) (s_peer_id s) (ks_data_pid_out slot)) pt = Ok ct"
    "pkt = data_header (ks_key_id slot) (s_peer_id s) (ks_data_pid_out slot) @ ct"
  using assms by (auto simp: build_data_packet_def Let_def and_then_eq_Ok set_slot_def split: option.splits)

lemma built_data_readable:
  assumes "aead_law A" and "active_slot s = Some slot" and "ks_key_id slot AND 7 = ks_key_id slot"
    and "s_peer_id s < 2 ^ 24" and "build_data_packet A pt s = (Ok pkt, s')"
  shows "\<exists>ct. DataPacketV2_parse pkt =
      Ok \<lparr>dp_key_id = ks_key_id slot, dp_peer_id = s_peer_id s, dp_packet_id = ks_data_pid_out slot,
          dp_ciphertext = ct\<rparr> \<and>
    DataCipher_open A (DataCipher_mirror (ks_cipher slot)) (ks_data_pid_out slot) (take 8 pkt) ct = Ok pt \<and>
    length pkt = 24 + length pt"
proof -
  from assms(5) obtain ct where ct: "DataCipher_seal A (ks_cipher slot) (ks_data_pid_out slot)
       (data_header (ks_key_id slot) (s_peer_id s) (ks_data_pid_out slot)) pt = Ok ct"
    "pkt = data_header (ks_key_id slot) (s_peer_id s) (ks_data_pid_out slot) @ ct"
    using assms(2) by (elim build_data_packet_Ok) simp
  show ?thesis
    using open_seal [OF assms(1) ct(1)] parse_data_header [OF assms(3,4)] ct(2) by simp
qed

text \<open>A data packet the server builds is readable by the client. With an AEAD that decrypts what it
  encrypted, a 3-bit key id and a 24-bit peer id, the packet parses as \<open>P_DATA_V2\<close> with the session's
  peer id, the active slot's key id and its current packet id; and the client's mirrored keys open
  it, with its first eight octets as associated data, to exactly the tunnelled IP packet.\<close>

theorem data_packet_readable:
  assumes "aead_law A" and "active_slot s = Some slot" and "ks_key_id slot AND 7 = ks_key_id slot"
    and "s_peer_id s < 2 ^ 24" and "build_data_packet A pt s = (Ok pkt, s')"
  shows "\<exists>ct. DataPacketV2_parse pkt =
      Ok \<lparr>dp_key_id = ks_key_id slot, dp_peer_id = s_peer_id s, dp_packet_id = ks_data_pid_out slot,
          dp_ciphertext = ct\<rparr> \<and>
    DataCipher_open A (DataCipher_mirror (ks_cipher slot)) (ks_data_pid_out slot) (take 8 pkt) ct = Ok pt \<and>
    length pkt = 24 + length pt"
  using assms by (rule built_data_readable)

text \<open>A session with an installed slot, for the witnesses.\<close>

definition keyed_session :: "unit Session" where
  "keyed_session = set_slot 0 (new_slot 0 (replicate 256 1)) example_session"

lemma keyed_session_active: "active_slot keyed_session = Some (new_slot 0 (replicate 256 1))"
  by (simp add: keyed_session_def active_slot_def set_slot_def example_session_def Session_new_def)

lemma keyed_session_builds: "\<exists>pkt s'. build_data_packet example_api [69, 0] keyed_session = (Ok pkt, s')"
  by (simp add: build_data_packet_def keyed_session_active DataCipher_seal_def example_api_def ok_or_def
      TAG_SIZE_def Let_def)

theorem data_packet_readable_witness:
  "\<exists>pkt s'. build_data_packet example_api [69, 0] keyed_session = (Ok pkt, s') \<and>
     aead_law example_api \<and> s_peer_id keyed_session < 2 ^ 24 \<and>
     (\<exists>ct. DataPacketV2_parse pkt =
        Ok \<lparr>dp_key_id = ks_key_id (new_slot 0 (replicate 256 1)), dp_peer_id = s_peer_id keyed_session,
            dp_packet_id = ks_data_pid_out (new_slot 0 (replicate 256 1)), dp_ciphertext = ct\<rparr> \<and>
      DataCipher_open example_api (DataCipher_mirror (ks_cipher (new_slot 0 (replicate 256 1))))
        (ks_data_pid_out (new_slot 0 (replicate 256 1))) (take 8 pkt) ct = Ok [69, 0] \<and>
      length pkt = 24 + length [69 :: u8, 0])"
proof -
  obtain pkt s' where b: "build_data_packet example_api [69, 0] keyed_session = (Ok pkt, s')"
    using keyed_session_builds by blast
  have p: "s_peer_id keyed_session < 2 ^ 24"
    by (simp add: keyed_session_def set_slot_def example_session_def Session_new_def)
  have k: "ks_key_id (new_slot 0 (replicate 256 1)) AND 7 = ks_key_id (new_slot 0 (replicate 256 1))"
    by (simp add: new_slot_def)
  show ?thesis
    using b p example_api_law data_packet_readable [OF example_api_law keyed_session_active k p b] by blast
qed

text \<open>A run of data packets over one session.\<close>

fun build_all :: "crypto_api \<Rightarrow> bytes list \<Rightarrow> 'c Session \<Rightarrow> bytes list" where
  "build_all A [] s = []"
| "build_all A (pt # pts) s =
     (case build_data_packet A pt s of
        (Inr pkt, s') \<Rightarrow> pkt # build_all A pts s'
      | (Inl e, s') \<Rightarrow> build_all A pts s')"

lemma subseq_distinct: "subseq xs ys \<Longrightarrow> distinct ys \<Longrightarrow> distinct xs"
proof (induction rule: list_emb.induct)
  case (list_emb_Cons2 x y xs ys)
  then have "set xs \<subseteq> set ys" by (blast elim: list_emb_set)
  with list_emb_Cons2 show ?case by auto
qed simp_all

lemma build_step:
  assumes "slots_ok s" "active_slot s = Some slot"
  shows "active_slot (snd (build_data_packet A pt s)) = Some (slot\<lparr>ks_data_pid_out := ks_data_pid_out slot + 1\<rparr>)"
    and "fst (build_data_packet A pt s) = Inr pkt \<Longrightarrow> subslice pkt 4 8 = to_be_bytes (ks_data_pid_out slot)"
  using assms
  by (auto simp: build_data_packet_def Let_def active_slot_def set_slot_def slots_ok_def and_then_eq_Ok
      data_header_def subslice_def)

lemma build_all_ids:
  assumes "slots_ok s" "active_slot s = Some slot"
  shows "subseq (map (\<lambda>pkt. subslice pkt 4 8) (build_all A pts s))
           (map to_be_bytes (draws (\<lambda>p :: u32. (p, p + 1)) (length pts) (ks_data_pid_out slot)))"
  using assms
proof (induction pts arbitrary: s slot)
  case (Cons pt pts)
  obtain r s' where r: "build_data_packet A pt s = (r, s')" by force
  let ?slot = "slot\<lparr>ks_data_pid_out := ks_data_pid_out slot + 1\<rparr>"
  have "slots_ok s'" "active_slot s' = Some ?slot"
    using slots_ok_build [OF Cons.prems(1), of A pt] build_step(1) [OF Cons.prems, of A pt] r by simp_all
  note IH = Cons.IH [OF this, simplified]
  show ?case
  proof (cases r)
    case (Inl e)
    then show ?thesis using list_emb_Cons [OF IH] r by simp
  next
    case (Inr pkt)
    then show ?thesis using IH r build_step(2) [OF Cons.prems, of A pt pkt] by simp
  qed
qed simp



end
