(* ===== verification/Exec.thy ===== *)
theory Exec
  imports Prelude
begin

text \<open>
  Stateful fallible code as functions from a state to a result and the state after it: an early
  return with \<open>?\<close> keeps the changes made before it. \<open>bindM m f\<close> is \<open>let x = m?; f(x)\<close>. \<open>keeps R m\<close> says that
  every run of \<open>m\<close>, failed ones included, relates the state before to the state after by \<open>R\<close>; for a
  preorder \<open>R\<close> it is compositional.
\<close>

type_synonym ('s, 'a) exec = "'s \<Rightarrow> 'a result \<times> 's"

definition returnM :: "'a \<Rightarrow> ('s, 'a) exec" where
  "returnM x = (\<lambda>s. (Ok x, s))"

definition failM :: "error \<Rightarrow> ('s, 'a) exec" where
  "failM e = (\<lambda>s. (Err e, s))"

definition bindM :: "('s, 'a) exec \<Rightarrow> ('a \<Rightarrow> ('s, 'b) exec) \<Rightarrow> ('s, 'b) exec" where
  "bindM m f = (\<lambda>s. case m s of (Inl e, s') \<Rightarrow> (Inl e, s') | (Inr x, s') \<Rightarrow> f x s')"

definition thenM :: "('s, 'a) exec \<Rightarrow> ('s, 'b) exec \<Rightarrow> ('s, 'b) exec" where
  "thenM m n = bindM m (\<lambda>_. n)"

text \<open>A state change that cannot fail, and a pure fallible computation on the state.\<close>

definition updM :: "('s \<Rightarrow> 's) \<Rightarrow> ('s, unit) exec" where
  "updM f = (\<lambda>s. (Ok (), f s))"

definition getM :: "('s \<Rightarrow> 'a result) \<Rightarrow> ('s, 'a) exec" where
  "getM f = (\<lambda>s. (f s, s))"

fun forM :: "'a list \<Rightarrow> ('a \<Rightarrow> ('s, unit) exec) \<Rightarrow> ('s, unit) exec" where
  "forM [] f = returnM ()"
| "forM (x # xs) f = thenM (f x) (forM xs f)"

lemma bindM_Ok: "m s = (Inr x, s') \<Longrightarrow> bindM m f s = f x s'"
  by (simp add: bindM_def)

lemma bindM_Err: "m s = (Inl e, s') \<Longrightarrow> bindM m f s = (Inl e, s')"
  by (simp add: bindM_def)

lemma thenM_Ok: "m s = (Inr x, s') \<Longrightarrow> thenM m n s = n s'"
  by (simp add: thenM_def bindM_Ok)

lemma thenM_Err: "m s = (Inl e, s') \<Longrightarrow> thenM m n s = (Inl e, s')"
  by (simp add: thenM_def bindM_Err)

lemma exec_simps [simp]:
  "returnM x s = (Ok x, s)" "failM e s = (Err e, s)" "updM f s = (Ok (), f s)" "getM g s = (g s, s)"
  by (simp_all add: returnM_def failM_def updM_def getM_def)

lemma snd_then_return [simp]: "snd (thenM m (returnM x) s) = snd (m s)"
  by (simp add: thenM_def bindM_def case_prod_beta split: sum.split)

definition keeps :: "('s \<Rightarrow> 's \<Rightarrow> bool) \<Rightarrow> ('s, 'a) exec \<Rightarrow> bool" where
  "keeps R m \<longleftrightarrow> (\<forall>s. R s (snd (m s)))"

named_theorems keeps_intros

lemma keepsD: "keeps R m \<Longrightarrow> m s = (r, s') \<Longrightarrow> R s s'"
  unfolding keeps_def by (metis snd_conv)

lemma keeps_returnM [keeps_intros]: "reflp R \<Longrightarrow> keeps R (returnM x)"
  by (simp add: keeps_def reflpD)

lemma keeps_failM [keeps_intros]: "reflp R \<Longrightarrow> keeps R (failM e)"
  by (simp add: keeps_def reflpD)

lemma keeps_getM [keeps_intros]: "reflp R \<Longrightarrow> keeps R (getM f)"
  by (simp add: keeps_def reflpD)

lemma keeps_updM: "(\<And>s. R s (f s)) \<Longrightarrow> keeps R (updM f)"
  by (simp add: keeps_def)

lemma keeps_bindM [keeps_intros]:
  assumes "transp R" "keeps R m" "\<And>x. keeps R (f x)"
  shows "keeps R (bindM m f)"
proof -
  have "R s (snd (bindM m f s))" for s
  proof (cases "m s")
    case (Pair r s')
    then have "R s s'" using assms(2) keepsD by metis
    then show ?thesis using Pair assms(1,3)
      by (cases r) (auto simp: bindM_def keeps_def dest: transpD)
  qed
  then show ?thesis by (simp add: keeps_def)
qed

lemma keeps_thenM [keeps_intros]: "transp R \<Longrightarrow> keeps R m \<Longrightarrow> keeps R n \<Longrightarrow> keeps R (thenM m n)"
  unfolding thenM_def by (rule keeps_bindM)

lemma keeps_forM [keeps_intros]:
  "reflp R \<Longrightarrow> transp R \<Longrightarrow> (\<And>x. keeps R (f x)) \<Longrightarrow> keeps R (forM xs f)"
  by (induction xs) (simp_all add: keeps_returnM keeps_thenM)

lemma keeps_if [keeps_intros]: "keeps R m \<Longrightarrow> keeps R n \<Longrightarrow> keeps R (if b then m else n)"
  by simp

lemma keeps_option [keeps_intros]:
  "keeps R m \<Longrightarrow> (\<And>x. keeps R (f x)) \<Longrightarrow> keeps R (case x of None \<Rightarrow> m | Some y \<Rightarrow> f y)"
  by (cases x) simp_all

lemma keeps_mono: "keeps R m \<Longrightarrow> (\<And>s s'. R s s' \<Longrightarrow> R' s s') \<Longrightarrow> keeps R' m"
  by (simp add: keeps_def)

text \<open>The relation that says a part of the state is unchanged.\<close>

definition same :: "('s \<Rightarrow> 'v) \<Rightarrow> 's \<Rightarrow> 's \<Rightarrow> bool" where
  "same p x y \<longleftrightarrow> p y = p x"

lemma same_preorder [simp]: "reflp (same p)" "transp (same p)"
  by (auto simp: same_def intro: reflpI transpI)

text \<open>The relation that says an invariant is kept.\<close>

definition stays :: "('s \<Rightarrow> bool) \<Rightarrow> 's \<Rightarrow> 's \<Rightarrow> bool" where
  "stays P x y \<longleftrightarrow> (P x \<longrightarrow> P y)"

lemma stays_preorder [simp]: "reflp (stays P)" "transp (stays P)"
  by (auto simp: stays_def intro: reflpI transpI)

text \<open>An invariant that only reads \<open>p\<close> is kept by whatever leaves \<open>p\<close> alone.\<close>

lemma keeps_same_stays:
  "keeps (same p) m \<Longrightarrow> (\<And>x y. p y = p x \<Longrightarrow> P x \<Longrightarrow> P y) \<Longrightarrow> keeps (stays P) m"
  unfolding keeps_def same_def stays_def by blast

end
