(* ===== verification/Config.thy ===== *)
theory Config
  imports Net
begin

text \<open>
  The server configuration (\<open>src/src/config.rs\<close>). Paths are strings. Reading the file and the TOML
  decoder (serde, with the defaults below for missing keys) are parameters of \<open>load\<close>; \<open>load\<close> itself
  is the cipher check.
\<close>

record ClientConfig =
  cc_assign_ip :: "IpAddr option"
  cc_push_routes :: "rstring list"

record ServerConfig =
  cfg_listen :: SocketAddr
  cfg_listen_tcp :: "SocketAddr option"
  cfg_ca :: rstring
  cfg_cert :: rstring
  cfg_key :: rstring
  cfg_tun_name :: rstring
  cfg_tun_ip :: IpAddr
  cfg_tun_netmask :: IpAddr
  cfg_client_pool_start :: IpAddr
  cfg_client_pool_end :: IpAddr
  cfg_cipher :: rstring
  cfg_tun_mtu :: u16
  cfg_push_routes :: "rstring list"
  cfg_push_dns :: "IpAddr list"
  cfg_tun_ip6 :: "IpAddr option"
  cfg_tun_prefix6 :: u8
  cfg_client_pool_start_v6 :: "IpAddr option"
  cfg_client_pool_end_v6 :: "IpAddr option"
  cfg_push_routes_v6 :: "rstring list"
  cfg_keepalive_ping :: u32
  cfg_keepalive_timeout :: u32
  cfg_tls_auth_key :: "rstring option"
  cfg_tls_auth_key_direction :: u8
  cfg_tls_crypt_key :: "rstring option"
  cfg_enable_nat :: bool
  cfg_wan_iface :: "rstring option"
  cfg_reneg_sec :: u32
  cfg_client_configs :: "rstring \<rightharpoonup> ClientConfig"

text \<open>\<open>cfg!(target_os = "macos")\<close> is an argument.\<close>

definition default_tun_name :: "bool \<Rightarrow> rstring" where
  "default_tun_name macos = (if macos then ''utun9'' else ''javs0'')"

definition default_cipher :: rstring where
  "default_cipher = ''AES-256-GCM''"

definition default_mtu :: u16 where
  "default_mtu = 1500"

definition default_keepalive_ping :: u32 where
  "default_keepalive_ping = 10"

definition default_keepalive_timeout :: u32 where
  "default_keepalive_timeout = 120"

definition default_tls_auth_direction :: u8 where
  "default_tls_auth_direction = 1"

definition default_reneg_sec :: u32 where
  "default_reneg_sec = 3600"

definition default_tun_prefix6 :: u8 where
  "default_tun_prefix6 = 64"

definition ServerConfig_load ::
  "(rstring \<Rightarrow> rstring result) \<Rightarrow> (rstring \<Rightarrow> ServerConfig result) \<Rightarrow> rstring \<Rightarrow> ServerConfig result" where
  "ServerConfig_load read_to_string toml_from_str path =
     and_then (read_to_string path) (\<lambda>text.
     and_then (toml_from_str text) (\<lambda>cfg.
       if \<not> eq_ignore_ascii_case (cfg_cipher cfg) ''AES-256-GCM''
       then bail ''unsupported cipher; only AES-256-GCM is implemented''
       else Ok cfg))"

end
