(* ===== verification/Push_Reply.thy ===== *)
theory Push_Reply
  imports Config Control_Channel
begin

text \<open>
  The \<open>PUSH_REPLY\<close> message and its helpers (\<open>build_push_reply\<close>, \<open>netmask_of\<close> and \<open>cidr_to_route\<close> of
  \<open>src/src/server.rs\<close>).
\<close>

definition netmask_of :: "IpAddr \<Rightarrow> Ipv4Addr" where
  "netmask_of addr = (case addr of V4 v \<Rightarrow> v | V6 _ \<Rightarrow> 0xFFFFFF00)"

definition cidr_to_route :: "rstring \<Rightarrow> (rstring \<times> rstring) option" where
  "cidr_to_route cidr =
     (case split_once CHR ''/'' cidr of
        None \<Rightarrow> None
      | Some (net, bits) \<Rightarrow>
          (case parse_u32 bits of
             None \<Rightarrow> None
           | Some bits \<Rightarrow>
               if bits > 32 then None
               else let m = (if bits = 0 then 0 else push_bit (unat (32 - bits)) (NOT 0 :: u32))
                    in Some (net, show_ipv4 m)))"

text \<open>The loop over the routes: the text it appends and the flag \<open>redirect_gateway\<close>.\<close>

fun push_routes_loop :: "rstring list \<Rightarrow> rstring \<times> bool \<Rightarrow> rstring \<times> bool" where
  "push_routes_loop [] acc = acc"
| "push_routes_loop (r # rs) (s, redirect) =
     push_routes_loop rs
       (if r = ''0.0.0.0/0'' then (s, True)
        else case cidr_to_route r of
               Some (net, m) \<Rightarrow> (s @ '',route '' @ net @ '' '' @ m, redirect)
             | None \<Rightarrow> (s, redirect))"

definition push_reply_text ::
  "ServerConfig \<Rightarrow> Ipv4Addr \<Rightarrow> Ipv6Addr option \<Rightarrow> u32 \<Rightarrow> rstring list \<Rightarrow> rstring" where
  "push_reply_text cfg client_ip client_ip6 peer_id extra_routes =
     (let s = ''PUSH_REPLY'' @ '',ifconfig '' @ show_ipv4 client_ip @ '' '' @ show_ipv4 (netmask_of (cfg_tun_netmask cfg))
              @ '',topology subnet'' @ '',route-gateway '' @ show_ip (cfg_tun_ip cfg);
          s = s @ (case (cfg_tun_ip6 cfg, client_ip6) of
                     (Some (V6 server6), Some client6) \<Rightarrow>
                       '',ifconfig-ipv6 '' @ show_ipv6 client6 @ ''/'' @ show_dec (unat (cfg_tun_prefix6 cfg))
                       @ '' '' @ show_ipv6 server6
                   | _ \<Rightarrow> []);
          (s, redirect_gateway) = push_routes_loop (cfg_push_routes cfg @ extra_routes) (s, False);
          s = (if redirect_gateway then s @ '',redirect-gateway def1 bypass-dhcp'' else s);
          s = s @ concat (map (\<lambda>r. '',route-ipv6 '' @ r) (cfg_push_routes_v6 cfg));
          s = s @ concat (map (\<lambda>dns. '',dhcp-option DNS '' @ show_ip dns) (cfg_push_dns cfg))
      in s @ '',ping '' @ show_dec (unat (cfg_keepalive_ping cfg))
           @ '',ping-restart '' @ show_dec (unat (cfg_keepalive_timeout cfg))
           @ '',cipher AES-256-GCM'' @ '',peer-id '' @ show_dec (unat peer_id))"

definition build_push_reply ::
  "ServerConfig \<Rightarrow> Ipv4Addr \<Rightarrow> Ipv6Addr option \<Rightarrow> u32 \<Rightarrow> rstring list \<Rightarrow> bytes" where
  "build_push_reply cfg client_ip client_ip6 peer_id extra_routes =
     as_bytes (push_reply_text cfg client_ip client_ip6 peer_id extra_routes) @ [0]"

section \<open>Route masks\<close>

lemma prefix_mask_bits:
  assumes "b \<le> 32"
  shows "bit (if word_of_nat b = (0 :: u32) then 0
              else push_bit (unat (32 - word_of_nat b :: u32)) (NOT 0 :: u32)) i \<longleftrightarrow> 32 - b \<le> i \<and> i < 32"
proof (cases "b = 0")
  case True
  then show ?thesis by simp
next
  case False
  have "(word_of_nat b :: u32) \<noteq> 0"
    using False assms by (simp add: word_of_nat_eq_0_iff nat_dvd_not_less)
  moreover have "unat (32 - word_of_nat b :: u32) = 32 - b"
    using assms by (simp add: unat_sub_if_size word_le_nat_alt unat_of_nat)
  ultimately show ?thesis by (auto simp: bit_simps)
qed

lemma slash_not_digit: "CHR ''/'' \<notin> set (show_dec n)"
  using show_dec_digits [of n] by force

lemma cidr_to_route_bits:
  assumes "CHR ''/'' \<notin> set net" and "b < 2 ^ 32"
  shows "cidr_to_route (net @ ''/'' @ show_dec b) =
    (if b \<le> 32
     then Some (net, show_ipv4 (if word_of_nat b = (0 :: u32) then 0
                                else push_bit (unat (32 - word_of_nat b :: u32)) (NOT 0 :: u32)))
     else None)"
proof -
  have "split_once CHR ''/'' (net @ ''/'' @ show_dec b) = Some (net, show_dec b)"
    using split_once_append [OF assms(1), of "show_dec b"] by simp
  moreover have "(word_of_nat b :: u32) > 32 \<longleftrightarrow> 32 < b"
    using assms(2) by (simp add: word_less_nat_alt unsigned_of_nat take_bit_nat_eq_self)
  ultimately show ?thesis using parse_u32_show [OF assms(2)] by (simp add: cidr_to_route_def Let_def)
qed

text \<open>A pushed CIDR \<open>net/bits\<close> with \<open>bits\<close> up to 32 becomes the route to \<open>net\<close> with the netmask whose
  leading \<open>bits\<close> bits are one and whose other bits are zero; more than 32 bits give no route.\<close>

theorem cidr_route_mask:
  assumes "CHR ''/'' \<notin> set net" and "b < 2 ^ 32"
  shows "(b \<le> 32 \<longrightarrow> (\<exists>m :: Ipv4Addr. cidr_to_route (net @ ''/'' @ show_dec b) = Some (net, show_ipv4 m) \<and>
            (\<forall>i < 32. bit m i \<longleftrightarrow> 32 - b \<le> i))) \<and>
         (32 < b \<longrightarrow> cidr_to_route (net @ ''/'' @ show_dec b) = None)"
  using cidr_to_route_bits [OF assms] prefix_mask_bits [of b] by (auto simp del: not_less)

theorem cidr_route_mask_witness:
  "CHR ''/'' \<notin> set ''10.0.0.0'' \<and> (8 :: nat) < 2 ^ 32 \<and>
   (\<exists>m :: Ipv4Addr. cidr_to_route (''10.0.0.0'' @ ''/'' @ show_dec 8) = Some (''10.0.0.0'', show_ipv4 m) \<and>
      (\<forall>i < 32. bit m i \<longleftrightarrow> 32 - 8 \<le> i))"
proof -
  have h: "CHR ''/'' \<notin> set ''10.0.0.0''" "(8 :: nat) < 2 ^ 32" by simp_all
  have "(8 :: nat) \<le> 32" by simp
  with h cidr_route_mask [OF h] show ?thesis by blast
qed

section \<open>The reply is one readable message\<close>

lemma plain_bytes: "plain s \<Longrightarrow> ascii (as_bytes s) \<and> 0 \<notin> set (as_bytes s)"
proof (induction s)
  case (Cons c s)
  then have c: "0 < (of_char c :: nat)" "(of_char c :: nat) < 128" by simp_all
  then have "(word_of_nat (of_char c) :: u8) \<noteq> 0" "(word_of_nat (of_char c) :: u8) < 128"
    by (simp_all add: word_unat_eq_iff word_less_nat_alt unsigned_of_nat take_bit_nat_eq_self)
  with Cons show ?case by simp
qed simp

lemma plain_ascii_ok: "plain s \<Longrightarrow> ascii_ok s"
  using plain_bytes [of s] by (simp add: ascii_ok_def ascii_valid)

lemma split_once_plain: "split_once c s = Some (a, b) \<Longrightarrow> plain s \<Longrightarrow> plain a \<and> plain b"
  by (induction s arbitrary: a b) (auto split: if_splits)

lemma cidr_plain: "cidr_to_route r = Some (net, m) \<Longrightarrow> plain r \<Longrightarrow> plain net \<and> plain m"
  by (auto simp: cidr_to_route_def Let_def split: option.splits if_splits dest: split_once_plain)

lemma routes_plain:
  "plain s \<Longrightarrow> list_all plain rs \<Longrightarrow> plain (fst (push_routes_loop rs (s, b)))"
  by (induction rs "(s, b)" arbitrary: s b rule: push_routes_loop.induct)
    (auto split: option.splits, use cidr_plain in blast)

lemma concat_plain: "list_all (\<lambda>x. plain (f x)) xs \<Longrightarrow> plain (concat (map f xs))"
  by (induction xs) simp_all

definition pushable :: "ServerConfig \<Rightarrow> rstring list \<Rightarrow> bool" where
  "pushable cfg extra \<longleftrightarrow>
     list_all plain (cfg_push_routes cfg) \<and> list_all plain extra \<and> list_all plain (cfg_push_routes_v6 cfg)"

lemma push_reply_plain:
  assumes "pushable cfg extra"
  shows "plain (push_reply_text cfg ip ip6 peer extra)"
  using assms
  by (auto simp: push_reply_text_def Let_def case_prod_beta pushable_def list_all_iff
      intro!: concat_plain routes_plain split: option.splits IpAddr.splits)


text \<open>A configuration for the witnesses.\<close>

definition example_config :: ServerConfig where
  "example_config =
     \<lparr>cfg_listen = (V4 0, 1194), cfg_listen_tcp = None, cfg_ca = ''ca.crt'', cfg_cert = ''server.crt'',
      cfg_key = ''server.key'', cfg_tun_name = ''javs0'', cfg_tun_ip = V4 0x0A080001,
      cfg_tun_netmask = V4 0xFFFFFF00, cfg_client_pool_start = V4 0x0A080002,
      cfg_client_pool_end = V4 0x0A0800FE, cfg_cipher = ''AES-256-GCM'', cfg_tun_mtu = 1500,
      cfg_push_routes = [''0.0.0.0/0'', ''192.168.0.0/16''], cfg_push_dns = [V4 0x01010101],
      cfg_tun_ip6 = None, cfg_tun_prefix6 = 64, cfg_client_pool_start_v6 = None,
      cfg_client_pool_end_v6 = None, cfg_push_routes_v6 = [], cfg_keepalive_ping = 10,
      cfg_keepalive_timeout = 120, cfg_tls_auth_key = None, cfg_tls_auth_key_direction = 1,
      cfg_tls_crypt_key = None, cfg_enable_nat = False, cfg_wan_iface = None, cfg_reneg_sec = 3600,
      cfg_client_configs = Map.empty\<rparr>"


end
