(* ===== verification/Server.thy ===== *)
theory Server
  imports Exec Session Control_Channel Tls_Crypt Push_Reply
begin

text \<open>
  The server (\<open>src/src/server.rs\<close>): its shared maps, the control-packet handler, the post-TLS control
  plane, rekeying, the data paths and the periodic tasks.

  Sessions are shared objects (\<open>Arc<Mutex<Session>>\<close>): the map \<open>sessions\<close> and the data workers point to
  the same one. \<open>v_store\<close> is the store of these objects, and an address maps to a reference into it.
  A handler that locks a session runs on the pair of the server and that session and stores the
  session back; since it holds the lock, its run is one step. \<open>v_wire\<close> logs every send with its
  outcome, \<open>v_inbox\<close> is the channel of each data worker, \<open>v_tun\<close> the channel of the TUN writer.

  What a step reads from outside is its \<open>env\<close>: the crates, the clock, random octets, the outcome of
  \<open>ServerConnection::new\<close> and of the sends (by position in the log).
\<close>

section \<open>State\<close>

record 'c env =
  env_crypto :: crypto_api
  env_rustls :: "'c rustls_api"
  env_now :: instant
  env_unix :: "nat option"
  env_new_conn :: "'c result"
  env_sid_bytes :: bytes
  env_r1 :: bytes
  env_r2 :: bytes
  env_send :: "nat \<Rightarrow> bool"
  env_tun_open :: bool

record 'c VpnServer =
  v_cfg :: ServerConfig
  v_store :: "nat \<rightharpoonup> 'c Session"
  v_next_ref :: nat
  v_sessions :: "SocketAddr \<rightharpoonup> nat"
  v_routes :: "Ipv4Addr \<rightharpoonup> SocketAddr"
  v_routes_v6 :: "Ipv6Addr \<rightharpoonup> SocketAddr"
  v_peers :: "u32 \<rightharpoonup> SocketAddr"
  v_next_peer_id :: u32
  v_next_pool_ip :: Ipv4Addr
  v_pool_end :: Ipv4Addr
  v_next_pool_ip_v6 :: "Ipv6Addr option"
  v_pool_end_v6 :: "Ipv6Addr option"
  v_data_routes :: "u32 \<rightharpoonup> nat"
  v_tun_writer_ready :: bool
  v_tls_crypt :: "TlsCryptKey option"
  v_tls_auth :: "TlsAuthKey option"
  v_wire :: "(Transport \<times> bytes \<times> bool) list"
  v_inbox :: "nat \<Rightarrow> bytes list"
  v_tun :: "bytes list"

type_synonym ('c, 'a) locked = "('c VpnServer \<times> 'c Session, 'a) exec"

text \<open>Operations on the locked session, and on the server while a session is locked.\<close>

definition on_sess :: "('c Session \<Rightarrow> 'c Session) \<Rightarrow> ('c, unit) locked" where
  "on_sess f = updM (\<lambda>(w, s). (w, f s))"

definition call_sess :: "('c Session \<Rightarrow> 'a \<times> 'c Session) \<Rightarrow> ('c, 'a) locked" where
  "call_sess f = (\<lambda>(w, s). let (x, s') = f s in (Ok x, (w, s')))"

definition try_sess :: "('c Session \<Rightarrow> 'a result \<times> 'c Session) \<Rightarrow> ('c, 'a) locked" where
  "try_sess f = (\<lambda>(w, s). let (r, s') = f s in (r, (w, s')))"

definition try_server :: "('c VpnServer, 'a) exec \<Rightarrow> ('c, 'a) locked" where
  "try_server m = (\<lambda>(w, s). let (r, w') = m w in (r, (w', s)))"

definition with_state :: "('c VpnServer \<Rightarrow> 'c Session \<Rightarrow> ('c, 'a) locked) \<Rightarrow> ('c, 'a) locked" where
  "with_state f = (\<lambda>(w, s). f w s (w, s))"

section \<open>Envelope, transport, tracking\<close>

definition unix_timestamp_u32 :: "nat option \<Rightarrow> u32" where
  "unix_timestamp_u32 since_epoch = (case since_epoch of Some secs \<Rightarrow> word_of_nat secs | None \<Rightarrow> 0)"

definition wrap_for_wire ::
  "'c env \<Rightarrow> 'c VpnServer \<Rightarrow> bytes \<Rightarrow> 'c Session \<Rightarrow> bytes result \<times> 'c Session" where
  "wrap_for_wire E self inner sess =
     (case v_tls_crypt self of
        Some tc \<Rightarrow>
          (let (pid, sess) = next_tls_auth_pid sess; ts = unix_timestamp_u32 (env_unix E)
           in (TlsCryptKey_wrap (env_crypto E) tc inner pid ts, sess))
      | None \<Rightarrow>
          (case v_tls_auth self of
             Some ta \<Rightarrow>
               (let (pid, sess) = next_tls_auth_pid sess; ts = unix_timestamp_u32 (env_unix E)
                in (TlsAuthKey_wrap (env_crypto E) ta inner pid ts, sess))
           | None \<Rightarrow> (Ok inner, sess)))"

definition unwrap_control :: "'c env \<Rightarrow> 'c VpnServer \<Rightarrow> bytes \<Rightarrow> (bytes option \<times> u32 option) result" where
  "unwrap_control E self pkt =
     (case v_tls_crypt self of
        Some tc \<Rightarrow> and_then (TlsCryptKey_unwrap (env_crypto E) tc pkt) (\<lambda>(inner, pid). Ok (Some inner, Some pid))
      | None \<Rightarrow>
          (case v_tls_auth self of
             Some ta \<Rightarrow> and_then (TlsAuthKey_unwrap (env_crypto E) ta pkt) (\<lambda>(inner, pid). Ok (Some inner, Some pid))
           | None \<Rightarrow> Ok (None, None)))"

definition Transport_send :: "'c env \<Rightarrow> Transport \<Rightarrow> bytes \<Rightarrow> ('c VpnServer, unit) exec" where
  "Transport_send E tr bs self =
     (let ok = env_send E (length (v_wire self));
          self = self\<lparr>v_wire := v_wire self @ [(tr, bs, ok)]\<rparr>
      in (if ok then Ok ()
          else (case tr of Udp _ \<Rightarrow> bail ''udp send_to'' | Tcp _ \<Rightarrow> bail ''tcp writer channel closed''),
          self))"

definition send_sess :: "'c env \<Rightarrow> bytes \<Rightarrow> ('c, unit) locked" where
  "send_sess E wire = with_state (\<lambda>w s. try_server (Transport_send E (s_transport s) wire))"

definition send_and_track :: "'c env \<Rightarrow> ControlPacket \<Rightarrow> ('c, unit) locked" where
  "send_and_track E pkt =
     (let encoded = ControlPacket_encode pkt
      in bindM (with_state (\<lambda>w s. try_sess (wrap_for_wire E w encoded))) (\<lambda>wire.
         thenM (send_sess E wire)
           (case cp_packet_id pkt of
              Some p \<Rightarrow> on_sess (record_sent p encoded (env_now E))
            | None \<Rightarrow> returnM ())))"

section \<open>Flushing TLS output\<close>

definition sess_take_outgoing :: "'c env \<Rightarrow> ('c, bytes) locked" where
  "sess_take_outgoing E = call_sess (\<lambda>s. let (out, t) = take_outgoing (env_rustls E) (s_tls s) in (out, s\<lparr>s_tls := t\<rparr>))"

definition active_key_id :: "'c Session \<Rightarrow> u8" where
  "active_key_id s = (case active_slot s of Some k \<Rightarrow> ks_key_id k | None \<Rightarrow> 0)"

definition send_chunk :: "'c env \<Rightarrow> u8 \<Rightarrow> bytes \<Rightarrow> ('c, unit) locked" where
  "send_chunk E key_id chunk = bindM (call_sess (make_control key_id chunk)) (send_and_track E)"

definition flush_outgoing :: "'c env \<Rightarrow> ('c, unit) locked" where
  "flush_outgoing E =
     bindM (sess_take_outgoing E) (\<lambda>out.
       with_state (\<lambda>w s.
         if out \<noteq> [] then
           forM (chunks MAX_TLS_PAYLOAD_PER_CONTROL out) (send_chunk E (active_key_id s))
         else if s_pending_acks s \<noteq> [] then
           (let pids = s_pending_acks s
            in thenM (on_sess (\<lambda>s. s\<lparr>s_pending_acks := []\<rparr>))
                 (bindM (with_state (\<lambda>w s. try_sess (wrap_for_wire E w
                            (ControlPacket_encode (make_ack (active_key_id s) pids s)))))
                   (send_sess E)))
         else returnM ()))"

definition sess_send_plaintext :: "'c env \<Rightarrow> bytes \<Rightarrow> ('c, unit) locked" where
  "sess_send_plaintext E data =
     try_sess (\<lambda>s. let (r, t) = send_plaintext (env_rustls E) (s_tls s) data in (r, s\<lparr>s_tls := t\<rparr>))"

definition server_km2_reply :: "ServerConfig \<Rightarrow> bytes \<Rightarrow> bytes \<Rightarrow> bytes" where
  "server_km2_reply cfg r1 r2 =
     (let link_mtu = (if unat (cfg_tun_mtu cfg) + 42 < 2 ^ 16 then cfg_tun_mtu cfg + 42 else - 1)
      in ServerKeyMethod2_encode
           \<lparr>sk_random1 = r1, sk_random2 = r2, sk_options = build_options_string link_mtu (cfg_tun_mtu cfg),
            sk_username = [], sk_password = [], sk_peer_info = build_peer_info\<rparr>)"

section \<open>Address pools\<close>

definition allocate_ip :: "('c VpnServer, Ipv4Addr) exec" where
  "allocate_ip self =
     (let ip = v_next_pool_ip self
      in if ip > v_pool_end self then (bail ''client IP pool exhausted'', self)
         else (Ok ip, self\<lparr>v_next_pool_ip := ip + 1\<rparr>))"

definition allocate_ip_v6 :: "('c VpnServer, Ipv6Addr option) exec" where
  "allocate_ip_v6 self =
     (case v_next_pool_ip_v6 self of
        None \<Rightarrow> (Ok None, self)
      | Some ip \<Rightarrow>
          (case v_pool_end_v6 self of
             None \<Rightarrow> (Err (Panic ''pool_end_v6 set together with next_pool_ip_v6''), self)
           | Some pool_end \<Rightarrow>
               if ip > pool_end then (bail ''client IPv6 pool exhausted'', self)
               else (Ok (Some ip), self\<lparr>v_next_pool_ip_v6 := Some (ip + 1)\<rparr>)))"

section \<open>The control plane after TLS\<close>

definition drain_plaintext :: "nat \<Rightarrow> 'c Session \<Rightarrow> 'c Session" where
  "drain_plaintext n s = s\<lparr>s_tls := (s_tls s)\<lparr>plaintext_in := drop n (plaintext_in (s_tls s))\<rparr>\<rparr>"

text \<open>The arms of the loop; \<open>True\<close> continues it, \<open>False\<close> is \<open>return Ok(())\<close>.\<close>

definition drive_key_exchange :: "'c env \<Rightarrow> ('c, bool) locked" where
  "drive_key_exchange E =
     bindM (getM (\<lambda>(w, s). ClientKeyMethod2_try_parse (plaintext_in (s_tls s)))) (\<lambda>pop.
       case pop of
         NeedMore \<Rightarrow> returnM False
       | Ready km n \<Rightarrow>
           thenM (on_sess (\<lambda>s. (drain_plaintext n s)
                    \<lparr>s_client_pre_master := Some (km_pre_master km),
                     s_client_random1 := Some (km_random1 km), s_client_random2 := Some (km_random2 km),
                     s_client_options := Some (km_options km), s_client_peer_info := Some (km_peer_info km)\<rparr>))
          (thenM (try_sess (install_prf_slot (env_crypto E) 0))
          (thenM (with_state (\<lambda>w s. sess_send_plaintext E
                    (server_km2_reply (v_cfg w) (s_server_random1 s) (s_server_random2 s))))
          (thenM (on_sess (\<lambda>s. s\<lparr>s_state := PushPending\<rparr>))
             (returnM True)))))"

definition client_config :: "'c VpnServer \<Rightarrow> 'c Session \<Rightarrow> ClientConfig option" where
  "client_config w s = (case s_client_cn s of None \<Rightarrow> None | Some cn \<Rightarrow> cfg_client_configs (v_cfg w) cn)"

definition choose_ip :: "('c, Ipv4Addr) locked" where
  "choose_ip =
     with_state (\<lambda>w s.
       case (case client_config w s of None \<Rightarrow> None | Some c \<Rightarrow> cc_assign_ip c) of
         Some (V4 v4) \<Rightarrow> if v4 \<in> dom (v_routes w) then failM (Bail ''static IP already in use'' []) else returnM v4
       | Some (V6 _) \<Rightarrow> failM (Bail ''per-client IPv6 not supported'' [])
       | None \<Rightarrow> try_server allocate_ip)"

text \<open>\<open>PUSH_REQUEST\<close>, from the IPv6 address on, and as a whole.\<close>

definition push_reply_to :: "'c env \<Rightarrow> SocketAddr \<Rightarrow> Ipv4Addr \<Rightarrow> ('c, unit) locked" where
  "push_reply_to E addr ip =
     bindM (try_server allocate_ip_v6) (\<lambda>ip6.
     thenM (case ip6 of
              Some v6 \<Rightarrow> thenM (on_sess (\<lambda>s. s\<lparr>s_assigned_ip_v6 := Some v6\<rparr>))
                           (try_server (updM (\<lambda>w. w\<lparr>v_routes_v6 := (v_routes_v6 w)(v6 \<mapsto> addr)\<rparr>)))
            | None \<Rightarrow> returnM ())
    (thenM (with_state (\<lambda>w s. sess_send_plaintext E
              (build_push_reply (v_cfg w) ip ip6 (s_peer_id s)
                 (case client_config w s of None \<Rightarrow> [] | Some c \<Rightarrow> cc_push_routes c))))
       (on_sess (\<lambda>s. s\<lparr>s_state := Established\<rparr>))))"

definition push_request :: "'c env \<Rightarrow> SocketAddr \<Rightarrow> ('c, unit) locked" where
  "push_request E addr =
     bindM choose_ip (\<lambda>ip.
     thenM (on_sess (\<lambda>s. s\<lparr>s_assigned_ip := Some (V4 ip)\<rparr>))
    (thenM (try_server (updM (\<lambda>w. w\<lparr>v_routes := (v_routes w)(ip \<mapsto> addr)\<rparr>)))
       (push_reply_to E addr ip)))"

definition drive_push_pending :: "'c env \<Rightarrow> SocketAddr \<Rightarrow> ('c, bool) locked" where
  "drive_push_pending E addr =
     with_state (\<lambda>w s.
       case try_pop_ascii (plaintext_in (s_tls s)) of
         NeedMore \<Rightarrow> returnM False
       | Ready msg n \<Rightarrow>
           thenM (on_sess (drain_plaintext n))
          (thenM (if msg = ''PUSH_REQUEST'' then push_request E addr else returnM ())
             (returnM True)))"

definition drive_established :: "('c, bool) locked" where
  "drive_established =
     with_state (\<lambda>w s.
       case try_pop_ascii (plaintext_in (s_tls s)) of
         Ready msg n \<Rightarrow>
           thenM (on_sess (drain_plaintext n))
             (if msg = ''EXIT'' \<or> starts_with msg ''CC_EXIT''
              then thenM (on_sess (\<lambda>s. s\<lparr>s_state := Closed\<rparr>)) (returnM False)
              else returnM True)
       | NeedMore \<Rightarrow> returnM False)"

definition drive_step :: "'c env \<Rightarrow> SocketAddr \<Rightarrow> ('c, bool) locked" where
  "drive_step E addr =
     with_state (\<lambda>w s.
       case s_state s of
         KeyExchange \<Rightarrow> drive_key_exchange E
       | PushPending \<Rightarrow> drive_push_pending E addr
       | Established \<Rightarrow> drive_established
       | _ \<Rightarrow> returnM False)"

subsection \<open>The loop ends\<close>

lemma keeps_on_sess: "(\<And>w s. R (w, s) (w, f s)) \<Longrightarrow> keeps R (on_sess f)"
  by (auto simp: keeps_def on_sess_def)

lemma keeps_call_sess: "(\<And>w s. R (w, s) (w, snd (f s))) \<Longrightarrow> keeps R (call_sess f)"
  by (auto simp: keeps_def call_sess_def case_prod_beta Let_def)

lemma keeps_try_sess: "(\<And>w s. R (w, s) (w, snd (f s))) \<Longrightarrow> keeps R (try_sess f)"
  by (auto simp: keeps_def try_sess_def case_prod_beta Let_def)

lemma keeps_try_server: "(\<And>w s. R (w, s) (snd (m w), s)) \<Longrightarrow> keeps R (try_server m)"
  by (auto simp: keeps_def try_server_def case_prod_beta Let_def)

lemma keeps_with_state [keeps_intros]: "(\<And>w s. keeps R (f w s)) \<Longrightarrow> keeps R (with_state f)"
  by (auto simp: keeps_def with_state_def)

definition plain_of :: "'c VpnServer \<times> 'c Session \<Rightarrow> bytes" where
  "plain_of = (\<lambda>(w, s). plaintext_in (s_tls s))"

lemma keeps_plain_upd [keeps_intros]:
  "(\<And>s. plaintext_in (s_tls (f s)) = plaintext_in (s_tls s)) \<Longrightarrow> keeps (same plain_of) (on_sess f)"
  by (rule keeps_on_sess) (simp add: same_def plain_of_def)

lemma keeps_plain_server [keeps_intros]: "keeps (same plain_of) (try_server m)"
  by (rule keeps_try_server) (simp add: same_def plain_of_def)

lemma keeps_plain_send [keeps_intros]: "keeps (same plain_of) (sess_send_plaintext E data)"
  unfolding sess_send_plaintext_def
  by (rule keeps_try_sess) (simp add: same_def plain_of_def send_plaintext_def case_prod_beta Let_def)

lemma install_prf_slot_tls [simp]: "s_tls (snd (install_prf_slot A k s)) = s_tls s"
  by (auto simp: install_prf_slot_def Let_def install_slot_def set_slot_def split: sum.splits)

lemma keeps_plain_prf [keeps_intros]: "keeps (same plain_of) (try_sess (install_prf_slot A k))"
  by (rule keeps_try_sess) (simp add: same_def plain_of_def)

lemma keeps_plain_choose [keeps_intros]: "keeps (same plain_of) choose_ip"
  unfolding choose_ip_def by (intro keeps_intros) (auto split: IpAddr.splits intro!: keeps_intros)

lemma keeps_plain_push: "keeps (same plain_of) (push_request E addr)"
  unfolding push_request_def push_reply_to_def by (intro keeps_intros same_preorder) simp_all

lemma plain_after_drain:
  assumes "keeps (same plain_of) m" "thenM (on_sess f) m (w, s) = (r, (w', s'))"
    and "\<And>s. plaintext_in (s_tls (f s)) = drop n (plaintext_in (s_tls s))"
  shows "plaintext_in (s_tls s') = drop n (plaintext_in (s_tls s))"
proof -
  from assms(2) have "m (w, f s) = (r, (w', s'))" by (simp add: thenM_def bindM_def on_sess_def)
  from keepsD [OF assms(1) this] show ?thesis by (simp add: same_def plain_of_def assms(3))
qed

lemma drain_plaintext_in [simp]:
  "plaintext_in (s_tls (drain_plaintext n s)) = drop n (plaintext_in (s_tls s))"
  by (simp add: drain_plaintext_def)

lemma drain_shorter: "0 < n \<and> n \<le> length b \<Longrightarrow> length (drop n b) < length b"
  by auto

lemma drive_key_exchange_shrinks:
  assumes "drive_key_exchange E (w, s) = (Inr True, (w', s'))"
  shows "length (plaintext_in (s_tls s')) < length (plaintext_in (s_tls s))"
proof -
  from assms obtain km n where pop: "ClientKeyMethod2_try_parse (plaintext_in (s_tls s)) = Ok (Ready km n)"
    by (auto simp: drive_key_exchange_def bindM_def split: sum.splits Pop.splits)
  let ?f = "\<lambda>s. (drain_plaintext n s)
     \<lparr>s_client_pre_master := Some (km_pre_master km), s_client_random1 := Some (km_random1 km),
      s_client_random2 := Some (km_random2 km), s_client_options := Some (km_options km),
      s_client_peer_info := Some (km_peer_info km)\<rparr>"
  let ?m = "thenM (try_sess (install_prf_slot (env_crypto E) 0))
     (thenM (with_state (\<lambda>w s. sess_send_plaintext E
               (server_km2_reply (v_cfg w) (s_server_random1 s) (s_server_random2 s))))
     (thenM (on_sess (\<lambda>s. s\<lparr>s_state := PushPending\<rparr>)) (returnM True)))"
  from assms pop have run: "thenM (on_sess ?f) ?m (w, s) = (Inr True, (w', s'))"
    by (simp add: drive_key_exchange_def bindM_def)
  have "keeps (same plain_of) ?m" by (intro keeps_intros same_preorder) simp_all
  from plain_after_drain [OF this run, of n] show ?thesis
    using drain_shorter [OF km2.consumes [OF pop]] by simp
qed

lemma drive_push_pending_shrinks:
  assumes "drive_push_pending E addr (w, s) = (Inr True, (w', s'))"
  shows "length (plaintext_in (s_tls s')) < length (plaintext_in (s_tls s))"
proof -
  from assms obtain msg n where pop: "try_pop_ascii (plaintext_in (s_tls s)) = Ready msg n"
    by (auto simp: drive_push_pending_def with_state_def split: Pop.splits)
  let ?m = "thenM (if msg = ''PUSH_REQUEST'' then push_request E addr else returnM ()) (returnM True)"
  from assms pop have run: "thenM (on_sess (drain_plaintext n)) ?m (w, s) = (Inr True, (w', s'))"
    by (simp add: drive_push_pending_def with_state_def)
  have "keeps (same plain_of) ?m" by (intro keeps_intros same_preorder keeps_plain_push)
  from plain_after_drain [OF this run, of n] show ?thesis
    using drain_shorter [OF msgs.consumes] pop by simp
qed

lemma drive_established_shrinks:
  assumes "drive_established (w, s) = (Inr True, (w', s'))"
  shows "length (plaintext_in (s_tls s')) < length (plaintext_in (s_tls s))"
proof -
  from assms obtain msg n where pop: "try_pop_ascii (plaintext_in (s_tls s)) = Ready msg n"
    by (auto simp: drive_established_def with_state_def split: Pop.splits)
  with assms have "s' = drain_plaintext n s"
    by (auto simp: drive_established_def with_state_def thenM_def bindM_def on_sess_def split: if_splits)
  then show ?thesis using drain_shorter [OF msgs.consumes] pop by simp
qed

lemma drive_step_shrinks:
  assumes "drive_step E addr (w, s) = (Inr True, (w', s'))"
  shows "length (plaintext_in (s_tls s')) < length (plaintext_in (s_tls s))"
  using assms
  by (auto simp: drive_step_def with_state_def split: State.splits
      intro: drive_key_exchange_shrinks drive_push_pending_shrinks drive_established_shrinks)

function drive_control_plane :: "'c env \<Rightarrow> SocketAddr \<Rightarrow> ('c, unit) locked" where
  "drive_control_plane E addr st =
     (case drive_step E addr st of
        (Inl e, st') \<Rightarrow> (Inl e, st')
      | (Inr continue, st') \<Rightarrow> if continue then drive_control_plane E addr st' else (Ok (), st'))"
  by pat_completeness auto
termination
  by (relation "measure (\<lambda>(E, addr, w, s). length (plaintext_in (s_tls s)))")
    (auto intro: drive_step_shrinks [OF sym])

declare drive_control_plane.simps [simp del]

section \<open>Rekey\<close>

definition rekey_feed :: "'c env \<Rightarrow> bytes \<Rightarrow> 'c RekeyTrack \<Rightarrow> ('c, unit) locked" where
  "rekey_feed E payload rk =
     try_sess (\<lambda>s. let (r, t) = TlsSession_feed (env_rustls E) (rk_tls rk) payload;
                        rk = rk\<lparr>rk_tls := t\<rparr>;
                        rk = (if r = Ok () \<and> rk_state rk = RkHandshaking \<and> \<not> is_handshaking (env_rustls E) t
                              then rk\<lparr>rk_state := RkKeyExchange\<rparr> else rk)
                    in (r, s\<lparr>s_rekey := Some rk\<rparr>))"

definition drive_rekey_control_plane :: "'c env \<Rightarrow> ('c, unit) locked" where
  "drive_rekey_control_plane E =
     with_state (\<lambda>w s. case s_rekey s of
       None \<Rightarrow> returnM ()
     | Some rk \<Rightarrow>
         if rk_state rk \<noteq> RkKeyExchange then returnM ()
         else bindM (getM (\<lambda>_. ClientKeyMethod2_try_parse (plaintext_in (rk_tls rk)))) (\<lambda>pop. case pop of
             NeedMore \<Rightarrow> returnM ()
           | Ready km n \<Rightarrow>
               bindM (getM (\<lambda>_. returned (derive_openvpn_key_data (env_crypto E) (km_pre_master km) (km_random1 km)
                        (rk_server_random1 rk) (km_random2 km) (rk_server_random2 rk)
                        (to_be_bytes (s_client_session_id s)) (to_be_bytes (s_server_session_id s))))) (\<lambda>key_data.
               thenM (on_sess (install_slot (new_slot (rk_key_id rk) key_data)))
                 (try_sess (\<lambda>s.
                    let rk = rk\<lparr>rk_tls := (rk_tls rk)\<lparr>plaintext_in := drop n (plaintext_in (rk_tls rk))\<rparr>\<rparr>;
                        (r, t) = send_plaintext (env_rustls E) (rk_tls rk)
                           (server_km2_reply (v_cfg w) (rk_server_random1 rk) (rk_server_random2 rk));
                        rk = rk\<lparr>rk_tls := t\<rparr>
                    in case r of
                         Inl e \<Rightarrow> (Inl e, s\<lparr>s_rekey := Some rk\<rparr>)
                       | Inr _ \<Rightarrow> (Ok (), s\<lparr>s_rekey := Some (rk\<lparr>rk_key_method_sent := True\<rparr>)\<rparr>))))))"

definition flush_rekey_outgoing :: "'c env \<Rightarrow> ('c, unit) locked" where
  "flush_rekey_outgoing E =
     with_state (\<lambda>w s. case s_rekey s of
       None \<Rightarrow> returnM ()
     | Some rk \<Rightarrow>
         bindM (call_sess (\<lambda>s. let (out, t) = take_outgoing (env_rustls E) (rk_tls rk)
                                in (out, s\<lparr>s_rekey := Some (rk\<lparr>rk_tls := t\<rparr>)\<rparr>))) (\<lambda>out.
           if out = [] then returnM ()
           else forM (chunks MAX_TLS_PAYLOAD_PER_CONTROL out) (send_chunk E (rk_key_id rk))))"

definition finish_rekey :: "'c env \<Rightarrow> 'c Session \<Rightarrow> 'c Session" where
  "finish_rekey E s =
     (case s_rekey s of
        Some rk \<Rightarrow>
          if rk_key_method_sent rk
          then (snd (promote_slot (rk_key_id rk) s))\<lparr>s_rekey := None, s_last_rekey_at := env_now E\<rparr>
          else s
      | None \<Rightarrow> s)"

definition handle_rekey_control :: "'c env \<Rightarrow> ControlPacket \<Rightarrow> ('c, unit) locked" where
  "handle_rekey_control E ctrl =
     with_state (\<lambda>w s. case s_rekey s of
       None \<Rightarrow> returnM ()
     | Some rk \<Rightarrow>
         thenM (rekey_feed E (cp_payload ctrl) rk)
        (thenM (drive_rekey_control_plane E)
        (thenM (flush_rekey_outgoing E)
               (on_sess (finish_rekey E)))))"

section \<open>Control packets\<close>

definition lock :: "nat \<Rightarrow> ('c, 'a) locked \<Rightarrow> ('c VpnServer, 'a) exec" where
  "lock r m w =
     (case v_store w r of
        None \<Rightarrow> (Err (Panic ''dangling session reference''), w)
      | Some s \<Rightarrow> (let (res, w', s') = m (w, s) in (res, w'\<lparr>v_store := (v_store w')(r \<mapsto> s')\<rparr>)))"

definition sess_feed :: "'c env \<Rightarrow> bytes \<Rightarrow> ('c, unit) locked" where
  "sess_feed E payload =
     try_sess (\<lambda>s. let (r, t) = TlsSession_feed (env_rustls E) (s_tls s) payload in (r, s\<lparr>s_tls := t\<rparr>))"

definition handle_control_v1 :: "'c env \<Rightarrow> SocketAddr \<Rightarrow> ControlPacket \<Rightarrow> ('c, unit) locked" where
  "handle_control_v1 E addr ctrl =
     with_state (\<lambda>w s.
       if (case s_rekey s of Some rk \<Rightarrow> rk_key_id rk = cp_key_id ctrl | None \<Rightarrow> False)
       then handle_rekey_control E ctrl
       else
         thenM (sess_feed E (cp_payload ctrl))
        (thenM (on_sess (\<lambda>s. if s_state s = Handshaking \<and> \<not> is_handshaking (env_rustls E) (s_tls s)
                             then finalize_keys (env_rustls E) s else s))
        (thenM (drive_control_plane E addr)
               (flush_outgoing E))))"

definition handle_soft_reset :: "'c env \<Rightarrow> ControlPacket \<Rightarrow> ('c, unit) locked" where
  "handle_soft_reset E ctrl =
     with_state (\<lambda>w s.
       if s_rekey s \<noteq> None then returnM ()
       else if s_state s \<noteq> Established then returnM ()
       else bindM (getM (\<lambda>_. TlsSession_new (env_new_conn E))) (\<lambda>new_tls.
            thenM (on_sess (start_rekey (cp_key_id ctrl) new_tls (env_r1 E) (env_r2 E)))
           (bindM (call_sess (make_soft_reset_reply (cp_key_id ctrl)
                     (case cp_packet_id ctrl of Some p \<Rightarrow> p | None \<Rightarrow> 0)))
                  (send_and_track E))))"

definition handle_session_packet ::
  "'c env \<Rightarrow> SocketAddr \<Rightarrow> ControlPacket \<Rightarrow> u32 option \<Rightarrow> ('c, unit) locked" where
  "handle_session_packet E addr ctrl replay_pid =
     thenM (on_sess (\<lambda>s. s\<lparr>s_last_seen := env_now E\<rparr>))
    (thenM (case replay_pid of
              Some pid \<Rightarrow>
                try_sess (\<lambda>s. let (ok, win) = check_and_set (s_tls_auth_replay s) pid;
                                  s = s\<lparr>s_tls_auth_replay := win\<rparr>
                              in (if ok then Ok () else Err (Bail ''tls-auth replay rejected'' [unat pid]), s))
            | None \<Rightarrow> returnM ())
    (thenM (on_sess (\<lambda>s. if cp_acks ctrl \<noteq> [] then process_acks (cp_acks ctrl) s else s))
    (thenM (on_sess (\<lambda>s. case cp_packet_id ctrl of Some pid \<Rightarrow> note_received pid (env_now E) s | None \<Rightarrow> s))
       (case cp_op ctrl of
          AckV1 \<Rightarrow> returnM ()
        | ControlV1 \<Rightarrow> handle_control_v1 E addr ctrl
        | ControlSoftResetV1 \<Rightarrow> handle_soft_reset E ctrl
        | _ \<Rightarrow> returnM ()))))"

definition spawn_data_worker :: "u32 \<Rightarrow> nat \<Rightarrow> 'c VpnServer \<Rightarrow> 'c VpnServer" where
  "spawn_data_worker peer_id r w =
     (if v_tun_writer_ready w then w\<lparr>v_data_routes := (v_data_routes w)(peer_id \<mapsto> r)\<rparr> else w)"

text \<open>The session a HARD_RESET creates, before the reply; and its entry into the maps.\<close>

definition accepted_session ::
  "'c env \<Rightarrow> ControlPacket \<Rightarrow> u32 option \<Rightarrow> Transport \<Rightarrow> u32 \<Rightarrow> 'c TlsSession \<Rightarrow> 'c Session" where
  "accepted_session E ctrl replay_pid transport peer_id tls =
     (let server_sid = from_be_bytes (env_sid_bytes E);
          sess = Session_new server_sid tls peer_id transport (env_r1 E) (env_r2 E) (env_now E);
          sess = sess\<lparr>s_client_session_id := cp_session_id ctrl, s_state := Handshaking\<rparr>
      in case replay_pid of
           Some pid \<Rightarrow> sess\<lparr>s_tls_auth_replay := snd (check_and_set (s_tls_auth_replay sess) pid)\<rparr>
         | None \<Rightarrow> sess)"

definition register_session :: "SocketAddr \<Rightarrow> u32 \<Rightarrow> 'c Session \<Rightarrow> 'c VpnServer \<Rightarrow> 'c VpnServer" where
  "register_session addr peer_id sess w =
     (let r = v_next_ref w
      in spawn_data_worker peer_id r
           (w\<lparr>v_store := (v_store w)(r \<mapsto> sess), v_next_ref := r + 1,
              v_sessions := (v_sessions w)(addr \<mapsto> r), v_peers := (v_peers w)(peer_id \<mapsto> addr)\<rparr>))"

definition new_session ::
  "'c env \<Rightarrow> SocketAddr \<Rightarrow> ControlPacket \<Rightarrow> u32 option \<Rightarrow> Transport \<Rightarrow> ('c VpnServer, unit) exec" where
  "new_session E addr ctrl replay_pid transport w =
     (case TlsSession_new (env_new_conn E) of
        Inl e \<Rightarrow> (Inl e, w)
      | Inr tls \<Rightarrow>
          (let peer_id = v_next_peer_id w AND 0x00FFFFFF;
               ack_pid = (case cp_packet_id ctrl of Some p \<Rightarrow> p | None \<Rightarrow> 0);
               (reply, sess) = make_hard_reset_reply ack_pid
                                 (accepted_session E ctrl replay_pid transport peer_id tls);
               (res, w, sess) = send_and_track E reply (w\<lparr>v_next_peer_id := v_next_peer_id w + 1\<rparr>, sess)
           in case res of
                Inl e \<Rightarrow> (Inl e, w)
              | Inr _ \<Rightarrow> (Ok (), register_session addr peer_id sess w)))"

definition is_hard_reset :: "OpCode \<Rightarrow> bool" where
  "is_hard_reset op \<longleftrightarrow>
     op = ControlHardResetClientV2 \<or> op = ControlHardResetClientV1 \<or> op = ControlHardResetClientV3"

definition handle_control_packet ::
  "'c env \<Rightarrow> SocketAddr \<Rightarrow> bytes \<Rightarrow> u32 option \<Rightarrow> Transport \<Rightarrow> ('c VpnServer, unit) exec" where
  "handle_control_packet E addr pkt replay_pid transport w =
     (case ControlPacket_parse pkt of
        Inl e \<Rightarrow> (Inl e, w)
      | Inr ctrl \<Rightarrow>
          if is_hard_reset (cp_op ctrl) \<and> addr \<notin> dom (v_sessions w)
          then new_session E addr ctrl replay_pid transport w
          else (case v_sessions w addr of
                  None \<Rightarrow> (Ok (), w)
                | Some r \<Rightarrow> lock r (handle_session_packet E addr ctrl replay_pid) w))"

section \<open>Composition rules for the loop and the dispatch\<close>

lemma keeps_drive_control_plane:
  assumes "reflp R" "transp R" "keeps R (drive_step E addr)"
  shows "keeps R (drive_control_plane E addr)"
proof -
  have "R st (snd (drive_control_plane E addr st))" for st
    using assms(3)
  proof (induction E addr st rule: drive_control_plane.induct)
    case (1 E addr st)
    obtain x st' where d: "drive_step E addr st = (x, st')" by (rule prod.exhaust)
    have i: "R st st'" using keepsD [OF 1(2) d] .
    show ?case
    proof (cases x)
      case (Inl e)
      then show ?thesis using d i by (subst drive_control_plane.simps) simp
    next
      case (Inr c)
      then show ?thesis using d i transpD [OF assms(2) i] 1(1) [OF d [symmetric] Inr _ 1(2)]
        by (subst drive_control_plane.simps) auto
    qed
  qed
  then show ?thesis by (simp add: keeps_def)
qed

lemma keeps_session_op:
  assumes "reflp R" "keeps R (handle_control_v1 E addr ctrl)" "keeps R (handle_soft_reset E ctrl)"
  shows "keeps R (case op of AckV1 \<Rightarrow> returnM () | ControlV1 \<Rightarrow> handle_control_v1 E addr ctrl
    | ControlSoftResetV1 \<Rightarrow> handle_soft_reset E ctrl | _ \<Rightarrow> returnM ())"
  using assms by (cases op) (auto intro: keeps_intros)

end
