(* ===== verification/Server_Run.thy ===== *)
theory Server_Run
  imports Server
begin

text \<open>
  The rest of \<open>src/src/server.rs\<close>: the two directions of the data path, the dispatch of inbound
  packets from UDP and TCP, TCP framing, the periodic tasks of \<open>run\<close> and the eviction of sessions,
  and the server as a transition system over all of these steps. A task that walks the sessions
  map visits the addresses of a snapshot in some order: the list is an argument of its tick.
\<close>

section \<open>Data path\<close>

text \<open>The block of \<open>decrypt_and_forward\<close> that runs under the session lock.\<close>

definition open_data :: "'c env \<Rightarrow> DataPacketV2 \<Rightarrow> bytes \<Rightarrow> 'c Session \<Rightarrow> bytes result \<times> 'c Session" where
  "open_data E dp aad s =
     (case slot_by_key_id (dp_key_id dp) s of
        None \<Rightarrow> (Err (Bail ''no key slot'' [unat (dp_key_id dp)]), s)
      | Some (i, slot) \<Rightarrow>
          (case DataCipher_open (env_crypto E) (ks_cipher slot) (dp_packet_id dp) aad (dp_ciphertext dp) of
             Inl e \<Rightarrow> (Inl e, s)
           | Inr plaintext \<Rightarrow>
               (let (ok, win) = check_and_set (ks_replay slot) (dp_packet_id dp);
                    s = set_slot i (slot\<lparr>ks_replay := win\<rparr>) s
                in if \<not> ok
                   then (Err (Bail ''replay rejected'' [unat (dp_key_id dp), unat (dp_packet_id dp)]), s)
                   else (Ok plaintext, s\<lparr>s_last_seen := env_now E\<rparr>))))"

definition tun_send :: "'c env \<Rightarrow> bytes \<Rightarrow> ('c VpnServer, unit) exec" where
  "tun_send E pkt w =
     (if env_tun_open E then (Ok (), w\<lparr>v_tun := v_tun w @ [pkt]\<rparr>)
      else (bail ''tun writer channel closed'', w))"

definition decrypt_and_forward :: "'c env \<Rightarrow> nat \<Rightarrow> bytes \<Rightarrow> ('c VpnServer, unit) exec" where
  "decrypt_and_forward E r pkt w =
     (case DataPacketV2_parse pkt of
        Inl e \<Rightarrow> (Inl e, w)
      | Inr dp \<Rightarrow>
          bindM (lock r (try_sess (open_data E dp (take 8 pkt)))) (\<lambda>plaintext.
            if plaintext = PING_PAYLOAD then returnM () else tun_send E plaintext) w)"

text \<open>One iteration of a data worker: take the next raw packet from its channel.\<close>

definition worker_step :: "'c env \<Rightarrow> nat \<Rightarrow> 'c VpnServer \<Rightarrow> 'c VpnServer" where
  "worker_step E r w =
     (case v_inbox w r of
        [] \<Rightarrow> w
      | raw # rest \<Rightarrow> snd (decrypt_and_forward E r raw (w\<lparr>v_inbox := (v_inbox w)(r := rest)\<rparr>)))"

definition route_data :: "bytes \<Rightarrow> 'c VpnServer \<Rightarrow> 'c VpnServer" where
  "route_data pkt w =
     (case DataPacketV2_parse pkt of
        Inl e \<Rightarrow> w
      | Inr dp \<Rightarrow>
          (case v_data_routes w (dp_peer_id dp) of
             Some r \<Rightarrow> w\<lparr>v_inbox := (v_inbox w)(r := v_inbox w r @ [pkt])\<rparr>
           | None \<Rightarrow> w))"

text \<open>The TUN writer task: non-IP packets are skipped, the first failed write ends it.\<close>

fun tun_writer :: "(nat \<Rightarrow> bool) \<Rightarrow> bytes list \<Rightarrow> bytes list \<Rightarrow> bytes list" where
  "tun_writer write_ok written [] = written"
| "tun_writer write_ok written (pkt # pkts) =
     (if pkt \<noteq> [] \<and> (drop_bit 4 (hd pkt) = 4 \<or> drop_bit 4 (hd pkt) = 6)
      then if write_ok (length written) then tun_writer write_ok (written @ [pkt]) pkts else written
      else tun_writer write_ok written pkts)"

definition tun_destination :: "'c VpnServer \<Rightarrow> bytes \<Rightarrow> SocketAddr option" where
  "tun_destination w ip_pkt =
     (if ip_pkt = [] then None
      else let version = drop_bit 4 (ip_pkt ! 0)
           in if version = 4 then
                (if length ip_pkt < 20 then None else v_routes w (from_be_bytes (subslice ip_pkt 16 20)))
              else if version = 6 then
                (if length ip_pkt < 40 then None else v_routes_v6 w (from_be_bytes (subslice ip_pkt 24 40)))
              else None)"

definition forward_tun_to_client :: "'c env \<Rightarrow> bytes \<Rightarrow> ('c VpnServer, unit) exec" where
  "forward_tun_to_client E ip_pkt w =
     (case tun_destination w ip_pkt of
        None \<Rightarrow> (Ok (), w)
      | Some addr \<Rightarrow>
          (case v_sessions w addr of
             None \<Rightarrow> (Ok (), w)
           | Some r \<Rightarrow>
               lock r (with_state (\<lambda>w s.
                 if active_slot s = None then returnM ()
                 else bindM (try_sess (build_data_packet (env_crypto E) ip_pkt)) (send_sess E))) w))"

section \<open>Inbound packets\<close>

text \<open>The body of the receive loops (\<open>run\<close> for UDP, \<open>run_tcp_stream\<close> for TCP): errors are logged only.\<close>

definition receive_packet :: "'c env \<Rightarrow> SocketAddr \<Rightarrow> Transport \<Rightarrow> bytes \<Rightarrow> 'c VpnServer \<Rightarrow> 'c VpnServer" where
  "receive_packet E addr transport pkt w =
     (if pkt = [] then w
      else case OpCode_from_u8 (drop_bit 3 (pkt ! 0)) of
             Inl e \<Rightarrow> w
           | Inr op \<Rightarrow>
               if is_data op then route_data pkt w
               else (case unwrap_control E w pkt of
                       Inl e \<Rightarrow> w
                     | Inr (inner_owned, replay_pid) \<Rightarrow>
                         (let inner_pkt = (case inner_owned of Some i \<Rightarrow> i | None \<Rightarrow> pkt)
                          in snd (handle_control_packet E addr inner_pkt replay_pid transport w))))"

section \<open>TCP framing\<close>

text \<open>What the writer task puts on the stream for one packet, and for a sequence of them.\<close>

definition tcp_frame :: "bytes \<Rightarrow> bytes" where
  "tcp_frame bs =
     (if length bs > 65535 then [] else to_be_bytes (word_of_nat (length bs) :: u16) @ bs)"

text \<open>The reader loop: the packets it dispatches from a stream until end of file.\<close>

function tcp_packets :: "bytes \<Rightarrow> bytes list" where
  "tcp_packets stream =
     (if length stream < 2 then []
      else let len = unat (from_be_bytes (take 2 stream) :: u16);
               rest = drop 2 stream
           in if len = 0 then tcp_packets rest
              else if length rest < len then []
              else take len rest # tcp_packets (drop len rest))"
  by pat_completeness auto
termination by (relation "measure length") auto

declare tcp_packets.simps [simp del]

section \<open>Eviction\<close>

text \<open>Removing a session with its routes and ids: the tail of \<open>run_tcp_stream\<close> and, with the test for
  idleness, the reaper.\<close>

definition remove_ids :: "'c Session \<Rightarrow> 'c VpnServer \<Rightarrow> 'c VpnServer" where
  "remove_ids s w =
     w\<lparr>v_routes := (case s_assigned_ip s of Some (V4 ip) \<Rightarrow> (v_routes w)(ip := None) | _ \<Rightarrow> v_routes w),
       v_routes_v6 := (case s_assigned_ip_v6 s of Some ip6 \<Rightarrow> (v_routes_v6 w)(ip6 := None) | None \<Rightarrow> v_routes_v6 w),
       v_peers := (v_peers w)(s_peer_id s := None),
       v_data_routes := (v_data_routes w)(s_peer_id s := None)\<rparr>"

definition tcp_closed :: "SocketAddr \<Rightarrow> 'c VpnServer \<Rightarrow> 'c VpnServer" where
  "tcp_closed peer w =
     (case v_sessions w peer of
        None \<Rightarrow> w
      | Some r \<Rightarrow>
          (let w = w\<lparr>v_sessions := (v_sessions w)(peer := None)\<rparr>
           in case v_store w r of Some s \<Rightarrow> remove_ids s w | None \<Rightarrow> w))"

definition reap :: "'c env \<Rightarrow> SocketAddr \<Rightarrow> 'c VpnServer \<Rightarrow> 'c VpnServer" where
  "reap E addr w =
     (case v_sessions w addr of
        None \<Rightarrow> w
      | Some r \<Rightarrow>
          (case v_store w r of
             None \<Rightarrow> w
           | Some s \<Rightarrow>
               if duration_since (env_now E) (s_last_seen s) \<ge> from_secs (unat (cfg_keepalive_timeout (v_cfg w)))
               then remove_ids s (w\<lparr>v_sessions := (v_sessions w)(addr := None)\<rparr>)
               else w))"

text \<open>One tick of the reaper over a snapshot of the addresses.\<close>

definition reaper_tick :: "'c env \<Rightarrow> SocketAddr list \<Rightarrow> 'c VpnServer \<Rightarrow> 'c VpnServer" where
  "reaper_tick E candidates w = fold (reap E) candidates w"

section \<open>Periodic tasks\<close>

definition visit :: "(nat \<Rightarrow> 'c VpnServer \<Rightarrow> 'c VpnServer) \<Rightarrow> SocketAddr \<Rightarrow> 'c VpnServer \<Rightarrow> 'c VpnServer" where
  "visit f addr w = (case v_sessions w addr of None \<Rightarrow> w | Some r \<Rightarrow> f r w)"

text \<open>Server-initiated rekey of one session.\<close>

definition init_rekey :: "'c env \<Rightarrow> ('c, unit) locked" where
  "init_rekey E =
     with_state (\<lambda>w s.
       if s_state s \<noteq> Established \<or> s_rekey s \<noteq> None then returnM ()
       else if duration_since (env_now E) (s_last_rekey_at s) < from_secs (unat (cfg_reneg_sec (v_cfg w)))
       then returnM ()
       else
         (let new_key_id = (active_key_id s + 1) AND 0x07
          in case TlsSession_new (env_new_conn E) of
               Inl e \<Rightarrow> returnM ()
             | Inr new_tls \<Rightarrow>
                 thenM (on_sess (\<lambda>s. (start_rekey new_key_id new_tls (env_r1 E) (env_r2 E) s)
                                       \<lparr>s_last_rekey_at := env_now E\<rparr>))
                (bindM (call_sess (make_soft_reset_init new_key_id)) (send_and_track E))))"

definition rekey_one :: "'c env \<Rightarrow> SocketAddr \<Rightarrow> 'c VpnServer \<Rightarrow> 'c VpnServer" where
  "rekey_one E = visit (\<lambda>r w. snd (lock r (init_rekey E) w))"

definition ping_one :: "'c env \<Rightarrow> SocketAddr \<Rightarrow> 'c VpnServer \<Rightarrow> 'c VpnServer" where
  "ping_one E =
     visit (\<lambda>r w. snd (lock r (with_state (\<lambda>w s.
       if s_state s \<noteq> Established \<or> active_slot s = None then returnM ()
       else bindM (try_sess (build_data_packet (env_crypto E) PING_PAYLOAD)) (send_sess E))) w))"

text \<open>Retransmission: every stale packet is wrapped anew (a failed wrap skips the packet), then all
  are sent; failures are logged only.\<close>

definition rewrap :: "'c env \<Rightarrow> bytes \<Rightarrow> ('c, bytes list) locked" where
  "rewrap E inner = (\<lambda>(w, s). case wrap_for_wire E w inner s of
     (Inr wire, s') \<Rightarrow> (Ok [wire], (w, s')) | (Inl e, s') \<Rightarrow> (Ok [], (w, s')))"

fun rewrap_all :: "'c env \<Rightarrow> bytes list \<Rightarrow> ('c, bytes list) locked" where
  "rewrap_all E [] = returnM []"
| "rewrap_all E (inner # inners) =
     bindM (rewrap E inner) (\<lambda>a. bindM (rewrap_all E inners) (\<lambda>b. returnM (a @ b)))"

definition send_ignoring :: "'c env \<Rightarrow> bytes \<Rightarrow> ('c, unit) locked" where
  "send_ignoring E wire = (\<lambda>st. (Ok (), snd (send_sess E wire st)))"

definition retransmit :: "'c env \<Rightarrow> ('c, unit) locked" where
  "retransmit E =
     bindM (call_sess (stale_unacked (env_now E) CONTROL_BASE_RTO)) (\<lambda>stale_inner.
     bindM (rewrap_all E stale_inner) (\<lambda>wire_list. forM wire_list (send_ignoring E)))"

definition retransmit_one :: "'c env \<Rightarrow> SocketAddr \<Rightarrow> 'c VpnServer \<Rightarrow> 'c VpnServer" where
  "retransmit_one E = visit (\<lambda>r w. snd (lock r (retransmit E) w))"

definition shutdown_client :: "'c env \<Rightarrow> SocketAddr \<Rightarrow> 'c VpnServer \<Rightarrow> 'c VpnServer" where
  "shutdown_client E =
     visit (\<lambda>r w. snd (lock r (with_state (\<lambda>w s.
       if s_state s \<noteq> Established then returnM ()
       else thenM (sess_send_plaintext E (as_bytes ''RESTART,1'' @ [0])) (flush_outgoing E))) w))"

definition shutdown_clients :: "'c env \<Rightarrow> SocketAddr list \<Rightarrow> 'c VpnServer \<Rightarrow> 'c VpnServer" where
  "shutdown_clients E addrs w = fold (shutdown_client E) addrs w"

section \<open>The server as a transition system\<close>

datatype event =
    Receive SocketAddr Transport bytes
  | Worker nat
  | FromTun bytes
  | TcpClosed SocketAddr
  | Reap SocketAddr
  | Rekey SocketAddr
  | Ping SocketAddr
  | Retransmit SocketAddr
  | Shutdown SocketAddr

fun server_event :: "'c env \<Rightarrow> event \<Rightarrow> 'c VpnServer \<Rightarrow> 'c VpnServer" where
  "server_event E (Receive addr transport pkt) w = receive_packet E addr transport pkt w"
| "server_event E (Worker r) w = worker_step E r w"
| "server_event E (FromTun pkt) w = snd (forward_tun_to_client E pkt w)"
| "server_event E (TcpClosed addr) w = tcp_closed addr w"
| "server_event E (Reap addr) w = reap E addr w"
| "server_event E (Rekey addr) w = (if cfg_reneg_sec (v_cfg w) > 0 then rekey_one E addr w else w)"
| "server_event E (Ping addr) w = ping_one E addr w"
| "server_event E (Retransmit addr) w = retransmit_one E addr w"
| "server_event E (Shutdown addr) w = shutdown_client E addr w"

text \<open>What is reachable from a server state by any events with any environments.\<close>

inductive reaches :: "'c VpnServer \<Rightarrow> 'c VpnServer \<Rightarrow> bool" for w0 where
  start: "reaches w0 w0"
| step: "reaches w0 w \<Longrightarrow> reaches w0 (server_event E ev w)"

end
