(* ===== verification/Lock_Frame.thy ===== *)
theory Lock_Frame
  imports Server_Run Session_Props
begin

text \<open>
  What every handler of \<open>src/src/server.rs\<close> does to the server and the session it holds locked, as an
  interface: a preorder on such pairs that the elementary changes respect is respected by whole
  handlers. The locales grow with what a handler may change: sending and the reliability layer
  (\<open>lock_relation\<close>), the key slots (\<open>key_relation\<close>), the addresses (\<open>push_relation\<close>). The theories on
  invariants interpret them with the part of the state they are about.
\<close>

section \<open>Running from a known state\<close>

lemma keeps_with_state_at: "(\<And>w s. R (w, s) (snd (f w s (w, s)))) \<Longrightarrow> keeps R (with_state f)"
  by (auto simp: keeps_def with_state_def)

lemma bindM_from:
  assumes "transp R" "R st (snd (m st))" "\<And>x. keeps R (f x)"
  shows "R st (snd (bindM m f st))"
proof -
  obtain x st' where m: "m st = (x, st')" by (rule prod.exhaust)
  show ?thesis
  proof (cases x)
    case (Inl e)
    then show ?thesis using m assms(2) by (simp add: bindM_def)
  next
    case (Inr y)
    have "R st' (snd (f y st'))" using assms(3) by (simp add: keeps_def)
    then show ?thesis using m Inr assms(2) transpD [OF assms(1)] by (simp add: bindM_def)
  qed
qed

lemma thenM_from: "transp R \<Longrightarrow> R st (snd (m st)) \<Longrightarrow> keeps R n \<Longrightarrow> R st (snd (thenM m n st))"
  unfolding thenM_def by (rule bindM_from)

lemma bindM_getM: "bindM (getM f) g st = (case f st of Inl e \<Rightarrow> (Inl e, st) | Inr x \<Rightarrow> g x st)"
  by (simp add: bindM_def split: sum.split)

text \<open>Symbolic execution of locked programs.\<close>

lemma run_on: "thenM (on_sess f) m (w, s) = m (w, f s)"
  by (simp add: thenM_def bindM_def on_sess_def)

lemma run_with: "thenM (with_state f) m (w, s) = thenM (f w s) m (w, s)"
  by (simp add: thenM_def bindM_def with_state_def)

lemma run_with0: "with_state f (w, s) = f w s (w, s)"
  by (simp add: with_state_def)

lemma run_server: "thenM (try_server (updM f)) m (w, s) = m (f w, s)"
  by (simp add: thenM_def bindM_def try_server_def)

lemma run_on0: "on_sess f (w, s) = (Ok (), (w, f s))"
  by (simp add: on_sess_def)

lemma run_return: "thenM (returnM x) m st = m st"
  by (simp add: thenM_def bindM_def)

lemma run_assoc: "thenM (thenM m n) k = thenM m (thenM n k)"
  by (rule ext) (simp add: thenM_def bindM_def case_prod_beta split: sum.split)

lemma run_try: "f s = (Ok x, s') \<Longrightarrow> thenM (try_sess f) m (w, s) = m (w, s')"
  by (simp add: thenM_def bindM_def try_sess_def)

lemmas run_simps = run_on run_with run_with0 run_server run_on0 run_return

section \<open>Sending and the reliability layer\<close>

text \<open>The fields of a session that the reliability layer, TLS and the timestamps leave alone.\<close>

definition sess_core :: "'c Session \<Rightarrow> _" where
  "sess_core s = (s_slots s, s_active_slot_idx s, map_option rk_key_id (s_rekey s), s_peer_id s, s_transport s,
     s_server_session_id s, s_client_session_id s, s_assigned_ip s, s_assigned_ip_v6 s)"

lemma core_wrap [simp]: "sess_core (snd (wrap_for_wire E w inner s)) = sess_core s"
  by (simp add: wrap_for_wire_def next_tls_auth_pid_def case_prod_beta Let_def sess_core_def split: option.split)

lemma core_make_control [simp]: "sess_core (snd (make_control k p s)) = sess_core s"
  by (simp add: make_control_def alloc_packet_id_def Let_def sess_core_def)

lemma core_stale [simp]: "sess_core (snd (stale_unacked now rto s)) = sess_core s"
  by (simp add: stale_unacked_def case_prod_beta Let_def sess_core_def)

lemma core_soft_reset [simp]:
  "sess_core (snd (make_soft_reset_reply k a s)) = sess_core s" "sess_core (snd (make_soft_reset_init k s)) = sess_core s"
  by (simp_all add: make_soft_reset_reply_def make_soft_reset_init_def alloc_packet_id_def Let_def sess_core_def)

lemma core_reliability [simp]:
  "sess_core (record_sent p b t s) = sess_core s" "sess_core (process_acks acks s) = sess_core s"
  "sess_core (note_received p t s) = sess_core s" "sess_core (finalize_keys T s) = sess_core s"
  "sess_core (drain_plaintext n s) = sess_core s"
  by (simp_all add: record_sent_def process_acks_def note_received_def finalize_keys_def drain_plaintext_def
      Let_def sess_core_def split: option.split sum.split)

lemma core_updates [simp]:
  "sess_core (s\<lparr>s_tls := a\<rparr>) = sess_core s" "sess_core (s\<lparr>s_last_seen := b\<rparr>) = sess_core s"
  "sess_core (s\<lparr>s_pending_acks := c\<rparr>) = sess_core s" "sess_core (s\<lparr>s_state := d\<rparr>) = sess_core s"
  "sess_core (s\<lparr>s_unacked := u\<rparr>) = sess_core s"
  "sess_core (s\<lparr>s_tls_auth_replay := e\<rparr>) = sess_core s" "sess_core (s\<lparr>s_last_rekey_at := t\<rparr>) = sess_core s"
  "sess_core (s\<lparr>s_client_pre_master := f, s_client_random1 := g, s_client_random2 := h, s_client_options := i,
     s_client_peer_info := j\<rparr>) = sess_core s"
  by (simp_all add: sess_core_def)

locale lock_relation =
  fixes R :: "'c VpnServer \<times> 'c Session \<Rightarrow> 'c VpnServer \<times> 'c Session \<Rightarrow> bool"
  assumes reflR: "reflp R" and transR: "transp R"
    and frame: "sess_core s' = sess_core s \<Longrightarrow> R (w, s) (w, s')"
    and logged: "R (w, s) (w\<lparr>v_wire := x\<rparr>, s)"
    and sealed: "R (w, s) (w, snd (build_data_packet A pt s))"
    and rekeying: "s_rekey s = None \<Longrightarrow> k AND 7 = k \<Longrightarrow> R (w, s) (w, start_rekey k tls r1 r2 s)"
begin

lemmas steps = keeps_intros reflR transR

lemma on_frame: "(\<And>s. sess_core (f s) = sess_core s) \<Longrightarrow> keeps R (on_sess f)"
  by (rule keeps_on_sess) (rule frame)

lemma call_frame: "(\<And>s. sess_core (snd (f s)) = sess_core s) \<Longrightarrow> keeps R (call_sess f)"
  by (rule keeps_call_sess) (rule frame)

lemma try_frame: "(\<And>s. sess_core (snd (f s)) = sess_core s) \<Longrightarrow> keeps R (try_sess f)"
  by (rule keeps_try_sess) (rule frame)

lemma sends: "keeps R (send_sess E wire)"
  unfolding send_sess_def
  by (intro steps keeps_try_server) (simp add: Transport_send_def Let_def logged)

lemma tracks: "keeps R (send_and_track E pkt)"
  unfolding send_and_track_def Let_def by (intro steps try_frame on_frame sends) simp_all

lemma sends_chunk: "keeps R (send_chunk E k chunk)"
  unfolding send_chunk_def by (intro steps call_frame tracks) simp

lemma flushes: "keeps R (flush_outgoing E)"
  unfolding flush_outgoing_def sess_take_outgoing_def Let_def
  by (intro steps call_frame try_frame on_frame sends sends_chunk) (simp_all add: case_prod_beta)

lemma plaintext: "keeps R (sess_send_plaintext E data)"
  unfolding sess_send_plaintext_def by (intro try_frame) (simp add: case_prod_beta Let_def)

lemma feeds: "keeps R (sess_feed E payload)"
  unfolding sess_feed_def by (intro try_frame) (simp add: case_prod_beta Let_def)

lemma established: "keeps R drive_established"
  unfolding drive_established_def
  by (intro steps, split Pop.split) (auto intro!: steps on_frame)

text \<open>The control plane, for a relation that the first key slot and the address assignment keep.\<close>

lemma first_key:
  "(\<And>A w s. R (w, s) (w, snd (install_prf_slot A 0 s))) \<Longrightarrow> keeps R (drive_key_exchange E)"
  unfolding drive_key_exchange_def
  by (intro steps, split Pop.split) (auto intro!: steps keeps_try_sess on_frame plaintext)

lemma plane_step:
  assumes "\<And>A w s. R (w, s) (w, snd (install_prf_slot A 0 s))" "keeps R (push_request E addr)"
  shows "keeps R (drive_step E addr)"
proof -
  have "keeps R (drive_push_pending E addr)"
    unfolding drive_push_pending_def
    by (intro steps, split Pop.split) (auto intro!: steps on_frame assms(2))
  then show ?thesis
    unfolding drive_step_def
    by (intro steps, split State.split) (auto intro!: steps first_key assms(1) established)
qed

text \<open>A control packet that belongs to no rekey.\<close>

lemma plane_packet:
  assumes "\<And>A w s. R (w, s) (w, snd (install_prf_slot A 0 s))" "keeps R (push_request E addr)"
  shows "keeps R (thenM (sess_feed E payload)
    (thenM (on_sess (\<lambda>s. if s_state s = Handshaking \<and> \<not> is_handshaking (env_rustls E) (s_tls s)
                         then finalize_keys (env_rustls E) s else s))
    (thenM (drive_control_plane E addr) (flush_outgoing E))))"
  by (intro steps feeds on_frame keeps_drive_control_plane plane_step assms flushes) simp

lemma data_out: "keeps R (bindM (try_sess (build_data_packet A pt)) (send_sess E))"
  by (intro steps sends keeps_try_sess sealed)

lemma data_out_if: "keeps R (with_state (\<lambda>w s. if b w s then returnM ()
    else bindM (try_sess (build_data_packet A pt)) (send_sess E)))"
  by (intro steps data_out)

lemma restarts: "keeps R (with_state (\<lambda>w s. if b w s then returnM ()
    else thenM (sess_send_plaintext E msg) (flush_outgoing E)))"
  by (intro steps plaintext flushes)

lemma wraps: "keeps R (rewrap E inner)"
  unfolding keeps_def
proof
  fix st :: "'c VpnServer \<times> 'c Session"
  obtain w s where st: "st = (w, s)" by force
  obtain r s' where "wrap_for_wire E w inner s = (r, s')" by (rule prod.exhaust)
  with core_wrap [of E w inner s] show "R st (snd (rewrap E inner st))"
    by (cases r) (simp_all add: st rewrap_def frame)
qed

lemma wraps_all: "keeps R (rewrap_all E xs)"
  by (induction xs) (simp_all only: rewrap_all.simps steps wraps)

lemma retransmits: "keeps R (retransmit E)"
proof -
  have "keeps R (send_ignoring E wire)" for wire
    using sends [of E wire] by (simp add: keeps_def send_ignoring_def)
  then show ?thesis
    unfolding retransmit_def by (intro steps call_frame wraps_all) simp
qed

lemma soft_resets:
  assumes "cp_key_id ctrl AND 7 = cp_key_id ctrl"
  shows "keeps R (handle_soft_reset E ctrl)"
proof -
  have "R (w, s) (snd (thenM (on_sess (start_rekey (cp_key_id ctrl) tls r1 r2))
      (bindM (call_sess (make_soft_reset_reply k p)) (send_and_track E)) (w, s)))"
    if "s_rekey s = None" for w s tls r1 r2 k p
    by (rule thenM_from [OF transR]) (simp add: on_sess_def rekeying that assms, intro steps call_frame tracks, simp)
  then show ?thesis
    unfolding handle_soft_reset_def
    by (intro keeps_with_state_at) (auto simp: bindM_getM reflpD [OF reflR] split: sum.split)
qed

lemma starts_rekey: "keeps R (init_rekey E)"
proof -
  have r: "keeps R (thenM (on_sess (\<lambda>s. s\<lparr>s_last_rekey_at := t\<rparr>))
      (bindM (call_sess (make_soft_reset_init k)) (send_and_track E)))" for k t
    by (intro steps on_frame call_frame tracks) simp_all
  have "R (w, s) (snd (thenM (on_sess (\<lambda>s. (start_rekey k tls r1 r2 s)\<lparr>s_last_rekey_at := t\<rparr>))
      (bindM (call_sess (make_soft_reset_init k)) (send_and_track E)) (w, s)))"
    if "s_rekey s = None" "k AND 7 = k" for w s k tls r1 r2 t
    using thenM_from [OF transR, of "(w, s)" "on_sess (start_rekey k tls r1 r2)", OF _ r [of t k]] rekeying [OF that]
    by (simp add: thenM_def bindM_def on_sess_def)
  then show ?thesis
    unfolding init_rekey_def Let_def
    by (intro keeps_with_state_at) (auto simp: reflpD [OF reflR] split: sum.split)
qed

end

section \<open>Keys\<close>

locale key_relation = lock_relation R
  for R :: "'c VpnServer \<times> 'c Session \<Rightarrow> 'c VpnServer \<times> 'c Session \<Rightarrow> bool" +
  assumes keyed: "R (w, s) (w, snd (install_prf_slot A 0 s))"
    and rekeyed: "s_rekey s = Some rk \<Longrightarrow> R (w, s) (w, install_slot (new_slot (rk_key_id rk) key_data) s)"
    and promoted: "s_rekey s = Some rk \<Longrightarrow> R (w, s) (w, (snd (promote_slot (rk_key_id rk) s))\<lparr>s_rekey := None\<rparr>)"
    and opened: "R (w, s) (w, snd (open_data E dp aad s))"
begin

lemma opens: "keeps R (try_sess (open_data E dp aad))"
  by (rule keeps_try_sess) (rule opened)

text \<open>A rekey track is only replaced by one with the same key id.\<close>

lemma same_track: "s_rekey s = Some rk \<Longrightarrow> rk_key_id rk' = rk_key_id rk \<Longrightarrow> R (w, s) (w, s\<lparr>s_rekey := Some rk'\<rparr>)"
  by (rule frame) (simp add: sess_core_def)

lemma rekey_fed: "s_rekey s = Some rk \<Longrightarrow> R (w, s) (snd (rekey_feed E payload rk (w, s)))"
  by (auto simp: rekey_feed_def try_sess_def case_prod_beta Let_def intro!: same_track)

lemma rekey_replied:
  assumes "s_rekey s = Some rk" and "\<And>s'. \<exists>rk'. snd (f s') = s'\<lparr>s_rekey := Some rk'\<rparr> \<and> rk_key_id rk' = rk_key_id rk"
  shows "R (w, s) (snd (thenM (on_sess (install_slot (new_slot (rk_key_id rk) key_data))) (try_sess f) (w, s)))"
proof -
  let ?s = "install_slot (new_slot (rk_key_id rk) key_data) s"
  obtain rk' where "snd (f ?s) = ?s\<lparr>s_rekey := Some rk'\<rparr>" "rk_key_id rk' = rk_key_id rk" using assms(2) by blast
  moreover have "s_rekey ?s = Some rk" using assms(1) by (simp add: install_slot_def set_slot_def)
  ultimately have "R (w, s) (w, snd (f ?s))"
    using transpD [OF transR rekeyed [OF assms(1)] same_track] by metis
  then show ?thesis by (simp add: thenM_def bindM_def on_sess_def try_sess_def case_prod_beta Let_def)
qed

lemma rekey_plane: "keeps R (drive_rekey_control_plane E)"
  unfolding drive_rekey_control_plane_def
  by (rule keeps_with_state_at)
    (auto simp: reflpD [OF reflR] bindM_getM case_prod_beta Let_def intro!: rekey_replied
      split: option.split sum.split Pop.split, (rule exI, rule conjI, rule refl, simp)+)

lemma rekey_flush: "keeps R (flush_rekey_outgoing E)"
proof -
  have "R (w, s) (snd (bindM (call_sess (\<lambda>s. let (out, t) = take_outgoing T (rk_tls rk)
      in (out, s\<lparr>s_rekey := Some (rk\<lparr>rk_tls := t\<rparr>)\<rparr>))) (\<lambda>out. if out = [] then returnM ()
        else forM (chunks n out) (send_chunk E k)) (w, s)))" if "s_rekey s = Some rk" for w s rk T n k
    by (rule bindM_from [OF transR])
      (simp add: call_sess_def case_prod_beta same_track [OF that], intro steps sends_chunk)
  then show ?thesis
    unfolding flush_rekey_outgoing_def
    by (intro keeps_with_state_at) (simp add: reflpD [OF reflR] split: option.split)
qed

lemma rekey_finished: "keeps R (on_sess (finish_rekey E))"
proof (rule keeps_on_sess)
  fix w :: "'c VpnServer" and s :: "'c Session"
  have "R (w, s) (w, (snd (promote_slot (rk_key_id rk) s))\<lparr>s_rekey := None, s_last_rekey_at := t\<rparr>)"
    if "s_rekey s = Some rk" for rk t
    using transpD [OF transR promoted [OF that] frame] by simp
  then show "R (w, s) (w, finish_rekey E s)"
    by (simp add: finish_rekey_def reflpD [OF reflR] split: option.split)
qed

lemma rekey_control: "keeps R (handle_rekey_control E ctrl)"
proof -
  have "R (w, s) (snd (thenM (rekey_feed E (cp_payload ctrl) rk) (thenM (drive_rekey_control_plane E)
      (thenM (flush_rekey_outgoing E) (on_sess (finish_rekey E)))) (w, s)))" if "s_rekey s = Some rk" for w s rk
    by (intro thenM_from [OF transR] rekey_fed that steps rekey_plane rekey_flush rekey_finished)
  then show ?thesis
    unfolding handle_rekey_control_def
    by (intro keeps_with_state_at) (simp add: reflpD [OF reflR] split: option.split)
qed

end

section \<open>Addresses\<close>

locale push_relation = key_relation R
  for R :: "'c VpnServer \<times> 'c Session \<Rightarrow> 'c VpnServer \<times> 'c Session \<Rightarrow> bool" +
  fixes addr :: SocketAddr
  assumes pushed: "keeps R (push_request E addr)"
begin

lemma control_v1: "keeps R (handle_control_v1 E addr ctrl)"
  unfolding handle_control_v1_def by (intro keeps_with_state keeps_if rekey_control plane_packet keyed pushed)

lemma session_packet:
  "cp_key_id ctrl AND 7 = cp_key_id ctrl \<Longrightarrow> keeps R (handle_session_packet E addr ctrl replay_pid)"
  unfolding handle_session_packet_def
  by (intro steps on_frame try_frame keeps_session_op control_v1 soft_resets)
    (simp_all add: case_prod_beta Let_def split: option.split)

end

lemma key_relation_mono:
  assumes k: "key_relation R" and "reflp R'" "transp R'" and le: "\<And>x y. R x y \<Longrightarrow> R' x y"
  shows "key_relation R'"
proof -
  note l = key_relation.axioms(1) [OF k]
  note laws = lock_relation.frame [OF l] lock_relation.logged [OF l] lock_relation.sealed [OF l]
    lock_relation.rekeying [OF l] key_relation.keyed [OF k] key_relation.rekeyed [OF k]
    key_relation.promoted [OF k] key_relation.opened [OF k]
  show ?thesis
    using assms(2,3)
    by (intro key_relation.intro lock_relation.intro key_relation_axioms.intro) (simp_all add: le laws)
qed

section \<open>Invariants of the server\<close>

text \<open>The server with the locked session stored back.\<close>

definition put :: "nat \<Rightarrow> 'c VpnServer \<times> 'c Session \<Rightarrow> 'c VpnServer" where
  "put r = (\<lambda>(w, s). w\<lparr>v_store := (v_store w)(r \<mapsto> s)\<rparr>)"

lemma put_simps [simp]:
  "v_sessions (put r st) = v_sessions (fst st)" "v_routes (put r st) = v_routes (fst st)"
  "v_store (put r st) = (v_store (fst st))(r \<mapsto> snd st)" "v_next_ref (put r st) = v_next_ref (fst st)"
  "v_next_pool_ip (put r st) = v_next_pool_ip (fst st)" "v_pool_end (put r st) = v_pool_end (fst st)"
  "v_cfg (put r st) = v_cfg (fst st)" "v_routes_v6 (put r st) = v_routes_v6 (fst st)"
  "v_next_pool_ip_v6 (put r st) = v_next_pool_ip_v6 (fst st)" "v_pool_end_v6 (put r st) = v_pool_end_v6 (fst st)"
  "v_data_routes (put r st) = v_data_routes (fst st)"
  by (simp_all add: put_def case_prod_beta)

lemma put_id: "v_store w r = Some s \<Longrightarrow> put r (w, s) = w"
  by (simp add: put_def fun_upd_idem)

lemma lock_put:
  assumes "v_store w r = Some s" "m (w, s) = (x, st)"
  shows "lock r m w = (x, put r st)"
  using assms by (simp add: lock_def put_def case_prod_beta)

lemma snd_lock: "v_store w r = Some s \<Longrightarrow> snd (lock r m w) = put r (snd (m (w, s)))"
  by (cases "m (w, s)") (simp add: lock_put)

lemma parsed_key_id: "ControlPacket_parse pkt = Ok ctrl \<Longrightarrow> cp_key_id ctrl AND 7 = cp_key_id ctrl"
  using encode_parse [of pkt ctrl] by (simp add: wf_control_def)

text \<open>The four programs the periodic tasks, the TUN reader and the shutdown run under a lock.\<close>

inductive task :: "'c env \<Rightarrow> ('c, unit) locked \<Rightarrow> bool" for E where
  rekey_task: "task E (init_rekey E)"
| retransmit_task: "task E (retransmit E)"
| data_task: "task E (with_state (\<lambda>w s. if b w s then returnM ()
    else bindM (try_sess (build_data_packet A pt)) (send_sess E)))"
| restart_task: "task E (with_state (\<lambda>w s. if b w s then returnM ()
    else thenM (sess_send_plaintext E msg) (flush_outgoing E)))"

lemma task_keeps: "task E m \<Longrightarrow> lock_relation R \<Longrightarrow> keeps R m"
  by (induction rule: task.induct)
    (simp_all add: lock_relation.starts_rekey lock_relation.retransmits lock_relation.data_out_if
      lock_relation.restarts)

text \<open>What is known of a session when it enters the maps.\<close>

definition fresh_session :: "u32 \<Rightarrow> Transport \<Rightarrow> 'c Session \<Rightarrow> bool" where
  "fresh_session peer_id transport s \<longleftrightarrow>
     s_slots s = [None, None] \<and> s_active_slot_idx s = 0 \<and> s_rekey s = None \<and> s_assigned_ip s = None \<and>
     s_assigned_ip_v6 s = None \<and> s_peer_id s = peer_id \<and> peer_id AND 0x00FFFFFF = peer_id \<and>
     s_transport s = transport \<and> s_state s = Handshaking \<and> s_tls_auth_pid_out s \<noteq> 0"

lemma wrap_state [simp]: "s_state (snd (wrap_for_wire E w inner s)) = s_state s"
  by (simp add: wrap_for_wire_def next_tls_auth_pid_def case_prod_beta Let_def split: option.split)

lemma wrap_pid: "s_tls_auth_pid_out s \<noteq> 0 \<Longrightarrow> s_tls_auth_pid_out (snd (wrap_for_wire E w inner s)) \<noteq> 0"
  using envelope_pids.draw_valid [of s]
  by (simp add: wrap_for_wire_def next_tls_auth_pid_def case_prod_beta Let_def split: option.split)

text \<open>A send changes the wire log and the reliability layer only.\<close>

lemma sent_effect:
  assumes "send_and_track E pkt (w, s) = (x, (w', s'))"
  shows "\<exists>l. w' = w\<lparr>v_wire := l\<rparr>" and "sess_core s' = sess_core s" and "s_state s' = s_state s"
    and "s_tls_auth_pid_out s \<noteq> 0 \<Longrightarrow> s_tls_auth_pid_out s' \<noteq> 0"
proof -
  let ?R = "\<lambda>(w, s) (w', s'). w'\<lparr>v_wire := []\<rparr> = w\<lparr>v_wire := []\<rparr> \<and> sess_core s' = sess_core s \<and>
    s_state s' = s_state s \<and> (s_tls_auth_pid_out s \<noteq> 0 \<longrightarrow> s_tls_auth_pid_out s' \<noteq> 0)"
  have "reflp ?R" by (auto intro: reflpI)
  moreover have "transp ?R" by (rule transpI) (auto simp del: VpnServer.ext_inject)
  ultimately have "keeps ?R (send_and_track E pkt)"
    unfolding send_and_track_def send_sess_def Let_def
    by (intro keeps_intros keeps_try_sess keeps_on_sess keeps_try_server)
      (auto simp: wrap_pid Transport_send_def Let_def record_sent_def)
  from keepsD [OF this assms] have r: "w'\<lparr>v_wire := []\<rparr> = w\<lparr>v_wire := []\<rparr>" and
    "sess_core s' = sess_core s" "s_state s' = s_state s"
    "s_tls_auth_pid_out s \<noteq> 0 \<Longrightarrow> s_tls_auth_pid_out s' \<noteq> 0" by simp_all
  from r have "w' = w\<lparr>v_wire := v_wire w'\<rparr>" by (cases w; cases w') simp
  with \<open>sess_core s' = sess_core s\<close> \<open>s_state s' = s_state s\<close> show "\<exists>l. w' = w\<lparr>v_wire := l\<rparr>"
    "sess_core s' = sess_core s" "s_state s' = s_state s" by blast+
  show "s_tls_auth_pid_out s \<noteq> 0 \<Longrightarrow> s_tls_auth_pid_out s' \<noteq> 0" by fact
qed

lemma masked_peer_id: "(p :: u32) AND 0x00FFFFFF AND 0x00FFFFFF = p AND 0x00FFFFFF"
  by (simp add: and.assoc)

text \<open>A new session is registered fresh, or only the peer id counter and the wire log have moved.\<close>

lemma new_session_cases:
  obtains n l where "snd (new_session E a ctrl p tr w) = w\<lparr>v_next_peer_id := n, v_wire := l\<rparr>"
  | n l q s where "snd (new_session E a ctrl p tr w) = register_session a q s (w\<lparr>v_next_peer_id := n, v_wire := l\<rparr>)"
      "fresh_session q tr s"
proof (cases "TlsSession_new (env_new_conn E)")
  case (Inl e)
  then show thesis using that(1) [where n = "v_next_peer_id w" and l = "v_wire w"] by (simp add: new_session_def)
next
  case (Inr tls)
  let ?q = "v_next_peer_id w AND 0x00FFFFFF" and ?w1 = "w\<lparr>v_next_peer_id := v_next_peer_id w + 1\<rparr>"
  obtain reply s2 where mk: "make_hard_reset_reply (case cp_packet_id ctrl of Some p \<Rightarrow> p | None \<Rightarrow> 0)
      (accepted_session E ctrl p tr ?q tls) = (reply, s2)" by (rule prod.exhaust)
  obtain x w3 s3 where sent: "send_and_track E reply (?w1, s2) = (x, (w3, s3))" by (metis prod.exhaust)
  have "fresh_session ?q tr s2"
    using mk by (auto simp: make_hard_reset_reply_def alloc_packet_id_def accepted_session_def Session_new_def
        Let_def fresh_session_def masked_peer_id split: option.splits)
  then have fresh: "fresh_session ?q tr s3"
    using sent_effect(2-4) [OF sent] by (simp add: fresh_session_def sess_core_def)
  obtain l where w3: "w3 = ?w1\<lparr>v_wire := l\<rparr>" using sent_effect(1) [OF sent] by blast
  have run: "new_session E a ctrl p tr w =
      (case x of Inl e \<Rightarrow> (Inl e, w3) | Inr _ \<Rightarrow> (Ok (), register_session a ?q s3 w3))"
    using Inr mk sent by (simp add: new_session_def Let_def)
  show thesis
  proof (cases x)
    case (Inl e)
    then show thesis using that(1) run w3 by simp
  next
    case (Inr u)
    then show thesis using that(2) [OF _ fresh] run w3 by simp
  qed
qed

text \<open>What a step of the server is built from, first without the steps that touch keys: the tasks, the
  queues, evictions and new sessions.\<close>

locale task_invariant =
  fixes I :: "'c VpnServer \<Rightarrow> bool"
  assumes tasked: "I w \<Longrightarrow> v_sessions w a = Some r \<Longrightarrow> v_store w r = Some s \<Longrightarrow> task E m \<Longrightarrow> I (put r (snd (m (w, s))))"
    and queued: "I w \<Longrightarrow> I (w\<lparr>v_tun := t\<rparr>)" "I w \<Longrightarrow> I (w\<lparr>v_inbox := b\<rparr>)"
    and removed: "I w \<Longrightarrow> v_sessions w a = Some r \<Longrightarrow> v_store w r = Some s \<Longrightarrow>
      I (remove_ids s (w\<lparr>v_sessions := (v_sessions w)(a := None)\<rparr>))"
    and dangling: "I w \<Longrightarrow> v_sessions w a = Some r \<Longrightarrow> v_store w r = None \<Longrightarrow>
      I (w\<lparr>v_sessions := (v_sessions w)(a := None)\<rparr>)"
    and counted: "I w \<Longrightarrow> I (w\<lparr>v_next_peer_id := n, v_wire := l\<rparr>)"
    and registered: "I w \<Longrightarrow> a \<notin> dom (v_sessions w) \<Longrightarrow> fresh_session q tr s \<Longrightarrow> I (register_session a q s w)"
begin

lemma created: "I w \<Longrightarrow> a \<notin> dom (v_sessions w) \<Longrightarrow> I (snd (new_session E a ctrl p tr w))"
  by (rule new_session_cases [of E a ctrl p tr w]) (auto intro!: counted registered)

lemma locked: "I w \<Longrightarrow> (\<And>s. v_store w r = Some s \<Longrightarrow> I (put r (snd (m (w, s))))) \<Longrightarrow> I (snd (lock r m w))"
  by (cases "v_store w r") (simp_all add: snd_lock, simp add: lock_def)

lemma visited: "I w \<Longrightarrow> task E m \<Longrightarrow> I (visit (\<lambda>r w. snd (lock r m w)) a w)"
  by (auto simp: visit_def intro!: locked tasked split: option.split)

lemma tun_forwarded: "I w \<Longrightarrow> I (snd (forward_tun_to_client E pkt w))"
  by (auto simp: forward_tun_to_client_def intro!: locked tasked intro: data_task split: option.split)

lemma evicted: "I w \<Longrightarrow> I (reap E a w)" "I w \<Longrightarrow> I (tcp_closed a w)"
  by (auto simp: reap_def tcp_closed_def Let_def removed dangling split: option.split)

lemma routed_data: "I w \<Longrightarrow> I (route_data pkt w)"
  by (simp add: route_data_def queued(2) split: sum.split option.split)

lemma other_event:
  assumes "I w" "\<And>a tr p. ev \<noteq> Receive a tr p" "\<And>r. ev \<noteq> Worker r"
  shows "I (server_event E ev w)"
  using assms
  by (cases ev)
    (auto simp: tun_forwarded evicted rekey_one_def ping_one_def retransmit_one_def shutdown_client_def
      intro!: visited intro: task.intros)

end

locale server_invariant = task_invariant I
  for I :: "'c VpnServer \<Rightarrow> bool" +
  assumes packet: "I w \<Longrightarrow> v_sessions w a = Some r \<Longrightarrow> v_store w r = Some s \<Longrightarrow>
      cp_key_id ctrl AND 7 = cp_key_id ctrl \<Longrightarrow> I (put r (snd (handle_session_packet E a ctrl p (w, s))))"
    and read: "I w \<Longrightarrow> v_store w r = Some s \<Longrightarrow> I (put r (w, snd (open_data E dp aad s)))"
begin

lemma received: "I w \<Longrightarrow> I (receive_packet E addr tr pkt w)"
proof -
  assume i: "I w"
  have "I (snd (handle_control_packet E addr p q tr w))" for p q
  proof (cases "ControlPacket_parse p")
    case (Inr ctrl)
    show ?thesis
    proof (cases "v_sessions w addr")
      case None
      then show ?thesis using Inr i created [OF i, of addr] by (auto simp: handle_control_packet_def)
    next
      case (Some r)
      then show ?thesis using Inr i packet [OF i Some _ parsed_key_id [OF Inr]]
        by (simp add: handle_control_packet_def domIff) (rule locked)
    qed
  qed (simp add: handle_control_packet_def i)
  then show ?thesis
    using i routed_data by (auto simp: receive_packet_def Let_def split: sum.split option.split)
qed

lemma forwarded: "I w \<Longrightarrow> I (snd (decrypt_and_forward E r pkt w))"
proof (cases "DataPacketV2_parse pkt")
  case (Inr dp)
  assume i: "I w"
  let ?m = "try_sess (open_data E dp (take 8 pkt))"
  have "I (snd (lock r ?m w))"
    by (rule locked [OF i]) (use read [OF i] in \<open>simp add: try_sess_def case_prod_beta Let_def\<close>)
  then show ?thesis using Inr queued(1)
    by (auto simp: decrypt_and_forward_def bindM_def tun_send_def case_prod_beta split: sum.split)
qed (simp add: decrypt_and_forward_def)

lemma worked: "I w \<Longrightarrow> I (worker_step E r w)"
  by (auto simp: worker_step_def queued(2) intro!: forwarded split: list.split)

lemma event:
  assumes "I w"
  shows "I (server_event E ev w)"
proof (cases "(\<exists>a tr p. ev = Receive a tr p) \<or> (\<exists>r. ev = Worker r)")
  case True
  then show ?thesis using received [OF assms] worked [OF assms] by auto
next
  case False
  then show ?thesis by (intro other_event assms) auto
qed

lemma reachable: "reaches w0 w \<Longrightarrow> I w0 \<Longrightarrow> I w"
  by (induction rule: reaches.induct) (simp_all add: event)

end

end
