(* ===== verification/Server_Inv.thy ===== *)
theory Server_Inv
  imports Lock_Frame
begin

text \<open>
  Invariants of the running server, over every reachable state: what each step leaves alone, and that
  no two clients share an IPv4 tunnel address.
\<close>

section \<open>What the handlers leave alone\<close>

text \<open>The part of the state that only the address assignment of a session changes.\<close>

definition quiet_view :: "'c VpnServer \<times> 'c Session \<Rightarrow> _" where
  "quiet_view = (\<lambda>(w, s). (s_assigned_ip s, v_routes w, v_sessions w, v_store w, v_next_ref w,
     v_next_pool_ip w, v_pool_end w, v_cfg w))"

lemma slot_ops_ip [simp]:
  "s_assigned_ip (snd (build_data_packet A pt s)) = s_assigned_ip s"
  "s_assigned_ip (snd (install_prf_slot A k s)) = s_assigned_ip s"
  "s_assigned_ip (install_slot slot s) = s_assigned_ip s"
  "s_assigned_ip (snd (promote_slot k s)) = s_assigned_ip s"
  "s_assigned_ip (snd (open_data E dp aad s)) = s_assigned_ip s"
  "s_assigned_ip (start_rekey k tls r1 r2 s) = s_assigned_ip s"
  by (auto simp: build_data_packet_def install_prf_slot_def install_slot_def set_slot_def promote_slot_def
      open_data_def start_rekey_def Let_def case_prod_beta split: option.split sum.split)

interpretation quiet: key_relation "same quiet_view"
  by unfold_locales (auto simp: same_def quiet_view_def sess_core_def)

lemma quiet_on_sess: "(\<And>s. s_assigned_ip (f s) = s_assigned_ip s) \<Longrightarrow> keeps (same quiet_view) (on_sess f)"
  by (rule keeps_on_sess) (simp add: same_def quiet_view_def)

section \<open>Who holds which address\<close>

declare split_paired_All [simp del] split_paired_Ex [simp del]

text \<open>What the session of the client at \<open>addr\<close> holds, and that everything held is routed to its holder. The
  function \<open>A\<close> reads the address from the session: the IPv4 or the IPv6 one.\<close>

definition holds :: "('c Session \<Rightarrow> 'i option) \<Rightarrow> 'c VpnServer \<Rightarrow> SocketAddr \<Rightarrow> 'i option" where
  "holds A w addr = Option.bind (v_sessions w addr) (\<lambda>r. Option.bind (v_store w r) A)"

definition served :: "('c Session \<Rightarrow> 'i option) \<Rightarrow> ('i \<rightharpoonup> SocketAddr) \<Rightarrow> 'c VpnServer \<Rightarrow> bool" where
  "served A rt w \<longleftrightarrow> (\<forall>addr i. holds A w addr = Some i \<longrightarrow> rt i = Some addr)"

text \<open>Every session of the map is an object of the store, and no object is in the map twice.\<close>

definition refs_ok :: "'c VpnServer \<Rightarrow> bool" where
  "refs_ok w \<longleftrightarrow>
     (\<forall>addr r. v_sessions w addr = Some r \<longrightarrow> r < v_next_ref w \<and> r \<in> dom (v_store w)) \<and>
     (\<forall>a b r. v_sessions w a = Some r \<longrightarrow> v_sessions w b = Some r \<longrightarrow> a = b)"

lemma holds_put_same:
  assumes "A s' = A s" "v_sessions w' = v_sessions w" "v_store w' = v_store w"
  shows "holds A (put r (w', s')) = holds A (put r (w, s))"
proof
  show "holds A (put r (w', s')) a = holds A (put r (w, s)) a" for a
    using assms by (cases "v_sessions w a") (simp_all add: holds_def)
qed

lemma holds_put_new:
  assumes "refs_ok (put r (w, s))" "v_sessions w addr = Some r" "A s' = Some i"
    and "v_sessions w' = v_sessions w" "v_store w' = v_store w"
  shows "holds A (put r (w', s')) = (holds A (put r (w, s)))(addr \<mapsto> i)"
proof
  fix a
  show "holds A (put r (w', s')) a = ((holds A (put r (w, s)))(addr \<mapsto> i)) a"
  proof (cases "v_sessions w a")
    case (Some q)
    moreover have "a = addr" if "q = r" using assms(1,2) Some that by (simp add: refs_ok_def)
    ultimately show ?thesis using assms(2-5) by (auto simp: holds_def)
  qed (use assms(2,4) in \<open>auto simp: holds_def\<close>)
qed

text \<open>Assigning an address nobody has a route to, together with its route.\<close>

lemma served_assign:
  assumes "served A rt (put r (w, s))" "refs_ok (put r (w, s))" "v_sessions w addr = Some r" "rt i = None"
    and "A s' = Some i" "v_sessions w' = v_sessions w" "v_store w' = v_store w"
  shows "served A (rt(i \<mapsto> addr)) (put r (w', s'))"
  using assms(1,4) unfolding served_def holds_put_new [of r w s addr A s' i w', OF assms(2,3,5-7)]
  by (auto split: if_splits)

lemma served_removed:
  assumes "served A rt w" "v_sessions w addr = Some r" "v_store w r = Some s"
    and "v_sessions w' = (v_sessions w)(addr := None)" "v_store w' = v_store w"
  shows "served A (case A s of Some i \<Rightarrow> rt(i := None) | None \<Rightarrow> rt) w'"
proof -
  have a: "holds A w' = (holds A w)(addr := None)" using assms(4,5) by (simp add: holds_def fun_eq_iff)
  have "rt i = Some addr" if "A s = Some i" for i
    using assms(1-3) that by (auto simp: served_def holds_def)
  then show ?thesis using assms(1) unfolding served_def a by (auto split: option.splits if_splits)
qed

lemma served_insert:
  assumes "refs_ok w" "served A rt w" "A s = None"
    and "v_sessions w' = (v_sessions w)(addr \<mapsto> v_next_ref w)" "v_store w' = (v_store w)(v_next_ref w \<mapsto> s)"
  shows "served A rt w'"
proof -
  have "holds A w' a = (if a = addr then None else holds A w a)" for a
    using assms(1,3-5) by (cases "v_sessions w a") (auto simp: holds_def refs_ok_def)
  then show ?thesis using assms(2) by (auto simp: served_def split: if_splits)
qed

lemma refs_ok_insert:
  assumes "refs_ok w" and "v_sessions w' = (v_sessions w)(addr \<mapsto> v_next_ref w)"
    and "v_store w' = (v_store w)(v_next_ref w \<mapsto> s)" and "v_next_ref w' = v_next_ref w + 1"
  shows "refs_ok w'"
proof -
  have fresh: "v_sessions w a = Some r \<Longrightarrow> r < v_next_ref w \<and> r \<in> dom (v_store w)" for a r
    using assms(1) by (simp add: refs_ok_def)
  then have "\<forall>a r. v_sessions w' a = Some r \<longrightarrow> r < v_next_ref w' \<and> r \<in> dom (v_store w')"
    by (auto simp: assms(2-4) less_Suc_eq split: if_splits)
  moreover have "\<forall>a b r. v_sessions w' a = Some r \<longrightarrow> v_sessions w' b = Some r \<longrightarrow> a = b"
    using assms(1) fresh by (simp add: refs_ok_def assms(2)) (metis less_irrefl option.inject)
  ultimately show ?thesis by (simp only: refs_ok_def)
qed

lemma served_frame: "v_sessions w' = v_sessions w \<Longrightarrow> v_store w' = v_store w \<Longrightarrow> served A rt w' = served A rt w"
  by (simp add: served_def holds_def)

section \<open>IPv4 addresses\<close>

definition session_ip :: "'c Session \<Rightarrow> Ipv4Addr option" where
  "session_ip s = (case s_assigned_ip s of Some (V4 ip) \<Rightarrow> Some ip | _ \<Rightarrow> None)"

abbreviation assigned :: "'c VpnServer \<Rightarrow> SocketAddr \<Rightarrow> Ipv4Addr option" where
  "assigned \<equiv> holds session_ip"

definition routed :: "'c VpnServer \<Rightarrow> bool" where
  "routed w \<longleftrightarrow> served session_ip (v_routes w) w"

text \<open>The pool starts at \<open>lo\<close>: an address of it that has a route was handed out; it does not wrap; and
  no statically assigned address lies in it.\<close>

definition pool_ok :: "Ipv4Addr \<Rightarrow> 'c VpnServer \<Rightarrow> bool" where
  "pool_ok lo w \<longleftrightarrow>
     (\<forall>ip \<in> dom (v_routes w). lo \<le> ip \<longrightarrow> ip \<le> v_pool_end w \<longrightarrow> ip < v_next_pool_ip w) \<and>
     lo \<le> v_next_pool_ip w \<and> v_pool_end w < - 1 \<and>
     (\<forall>cn c ip. cfg_client_configs (v_cfg w) cn = Some c \<longrightarrow> cc_assign_ip c = Some (V4 ip)
        \<longrightarrow> \<not> (lo \<le> ip \<and> ip \<le> v_pool_end w))"

definition addr_inv :: "Ipv4Addr \<Rightarrow> 'c VpnServer \<Rightarrow> bool" where
  "addr_inv lo w \<longleftrightarrow> refs_ok w \<and> routed w \<and> pool_ok lo w"

text \<open>The invariant during the lock.\<close>

definition locked_inv :: "Ipv4Addr \<Rightarrow> SocketAddr \<Rightarrow> nat \<Rightarrow> 'c VpnServer \<times> 'c Session \<Rightarrow> bool" where
  "locked_inv lo addr r st \<longleftrightarrow> v_sessions (fst st) addr = Some r \<and> addr_inv lo (put r st)"

lemma quiet_inv:
  assumes "quiet_view (w', s') = quiet_view (w, s)"
  shows "addr_inv lo (put r (w', s')) = addr_inv lo (put r (w, s))"
proof -
  have v: "v_routes w' = v_routes w" "v_sessions w' = v_sessions w" "v_store w' = v_store w"
    "v_next_ref w' = v_next_ref w" "v_next_pool_ip w' = v_next_pool_ip w" "v_pool_end w' = v_pool_end w"
    "v_cfg w' = v_cfg w" "session_ip s' = session_ip s" using assms by (simp_all add: quiet_view_def session_ip_def)
  have "served session_ip (v_routes w) (put r (w', s')) = served session_ip (v_routes w) (put r (w, s))"
    unfolding served_def holds_put_same [of session_ip s' s w' w r, OF v(8,2,3)] ..
  then show ?thesis by (simp add: addr_inv_def routed_def refs_ok_def pool_ok_def v)
qed

lemma quiet_locked:
  "quiet_view y = quiet_view x \<Longrightarrow> locked_inv lo addr r x \<Longrightarrow> locked_inv lo addr r y"
  using quiet_inv [of "fst y" "snd y" "fst x" "snd x" lo r]
  by (simp add: locked_inv_def) (simp add: quiet_view_def case_prod_beta)

text \<open>Assigning a fresh address together with its route keeps the invariant.\<close>

lemma locked_inv_assign:
  assumes l: "locked_inv lo addr r (w, s)" and fresh: "ip \<notin> dom (v_routes w)"
    and pool: "lo \<le> ip \<longrightarrow> ip \<le> v_pool_end w \<longrightarrow> ip < n" "v_next_pool_ip w \<le> n"
  shows "locked_inv lo addr r (w\<lparr>v_next_pool_ip := n, v_routes := (v_routes w)(ip \<mapsto> addr)\<rparr>,
           s\<lparr>s_assigned_ip := Some (V4 ip)\<rparr>)" (is "locked_inv lo addr r ?st")
proof -
  from l have i: "v_sessions w addr = Some r" "refs_ok (put r (w, s))" "routed (put r (w, s))"
    "pool_ok lo (put r (w, s))" by (simp_all add: locked_inv_def addr_inv_def)
  have "served session_ip ((v_routes w)(ip \<mapsto> addr)) (put r ?st)"
    by (rule served_assign [OF _ i(2,1)])
      (use i(3) fresh in \<open>auto simp: routed_def session_ip_def domIff\<close>)
  then have "routed (put r ?st)" by (simp add: routed_def)
  moreover have "refs_ok (put r ?st)" using i(2) by (simp add: refs_ok_def)
  moreover have "pool_ok lo (put r ?st)"
    using i(4) pool(1)
    by (auto simp: pool_ok_def dest: order.strict_trans2 [OF _ pool(2)] order.trans [OF _ pool(2)])
  ultimately show ?thesis using i(1) by (simp add: locked_inv_def addr_inv_def)
qed

lemma less_succ32: "(x :: u32) < - 1 \<Longrightarrow> x < x + 1"
  using unat32_bound [of x] by (simp add: word_less_nat_alt unat_succ32 unat_max32)

lemma allocate_ip_cases:
  "allocate_ip w = (Inr ip, w') \<longleftrightarrow>
     ip = v_next_pool_ip w \<and> ip \<le> v_pool_end w \<and> w' = w\<lparr>v_next_pool_ip := ip + 1\<rparr>"
  "allocate_ip w = (Inl e, w') \<Longrightarrow> w' = w"
  by (auto simp: allocate_ip_def Let_def split: if_splits)

text \<open>The address a client gets is not routed yet; only the pool counter may have moved.\<close>

lemma choose_ip_fresh:
  assumes "locked_inv lo addr r (w, s)" "choose_ip (w, s) = (Inr ip, st)"
  shows "\<exists>n. st = (w\<lparr>v_next_pool_ip := n\<rparr>, s) \<and> ip \<notin> dom (v_routes w) \<and>
    (lo \<le> ip \<longrightarrow> ip \<le> v_pool_end w \<longrightarrow> ip < n) \<and> v_next_pool_ip w \<le> n"
proof (cases "case client_config w s of None \<Rightarrow> None | Some c \<Rightarrow> cc_assign_ip c")
  case None
  with assms(2) have "try_server allocate_ip (w, s) = (Inr ip, st)"
    by (simp add: choose_ip_def with_state_def)
  then have ip: "ip = v_next_pool_ip w" "ip \<le> v_pool_end w" and st: "st = (w\<lparr>v_next_pool_ip := ip + 1\<rparr>, s)"
    by (auto simp: try_server_def case_prod_beta Let_def allocate_ip_def split: if_splits)
  from assms(1) have p: "\<And>x. x \<in> dom (v_routes w) \<Longrightarrow> lo \<le> x \<Longrightarrow> x \<le> v_pool_end w \<Longrightarrow> x < ip"
    "lo \<le> ip" "v_pool_end w < - 1"
    by (auto simp: locked_inv_def addr_inv_def pool_ok_def ip(1))
  have lt: "ip < ip + 1" using p(3) ip(2) by (intro less_succ32) (rule order.strict_trans1)
  moreover have "ip \<notin> dom (v_routes w)" using p(1) [of ip] p(2) ip(2) by blast
  ultimately show ?thesis using st ip(1) by (intro exI [of _ "ip + 1"]) auto
next
  case (Some a)
  then obtain c where c: "client_config w s = Some c" "cc_assign_ip c = Some a"
    by (auto split: option.splits)
  then have v4: "a = V4 ip" "ip \<notin> dom (v_routes w)" "st = (w, s)"
    using Some assms(2) by (auto simp: choose_ip_def with_state_def split: IpAddr.splits if_splits)
  from c(1) obtain cn where "cfg_client_configs (v_cfg w) cn = Some c"
    by (auto simp: client_config_def split: option.splits)
  then have "\<not> (lo \<le> ip \<and> ip \<le> v_pool_end w)"
    using assms(1) c(2) v4(1) by (auto simp: locked_inv_def addr_inv_def pool_ok_def)
  then show ?thesis using v4 by (intro exI [of _ "v_next_pool_ip w"]) auto
qed

lemma choose_ip_error: "choose_ip (w, s) = (Inl e, st) \<Longrightarrow> st = (w, s)"
  by (auto simp: choose_ip_def with_state_def try_server_def allocate_ip_def Let_def
      split: option.splits IpAddr.splits if_splits)

lemma quiet_push_reply_to: "keeps (same quiet_view) (push_reply_to E addr ip)"
proof -
  have a: "keeps (same quiet_view) (try_server allocate_ip_v6)"
    by (rule keeps_try_server)
      (auto simp: same_def quiet_view_def allocate_ip_v6_def Let_def split: option.split)
  have b: "keeps (same quiet_view) (try_server (updM (\<lambda>w. w\<lparr>v_routes_v6 := (v_routes_v6 w)(v6 \<mapsto> addr)\<rparr>)))" for v6
    by (rule keeps_try_server) (simp add: same_def quiet_view_def)
  show ?thesis
    unfolding push_reply_to_def by (intro keeps_intros same_preorder a b quiet_on_sess quiet.plaintext) simp_all
qed

lemma push_request_inv: "keeps (stays (locked_inv lo addr r)) (push_request E addr)"
  unfolding keeps_def stays_def
proof (intro allI impI)
  fix st :: "'a VpnServer \<times> 'a Session"
  obtain w s where st: "st = (w, s)" by force
  assume l: "locked_inv lo addr r st"
  obtain x st1 where c: "choose_ip st = (x, st1)" by (rule prod.exhaust)
  show "locked_inv lo addr r (snd (push_request E addr st))"
  proof (cases x)
    case (Inl e)
    then show ?thesis using c l choose_ip_error [of w s e st1] by (simp add: push_request_def bindM_def st)
  next
    case (Inr ip)
    with c l st choose_ip_fresh [of lo addr r w s ip st1] obtain n where
      n: "st1 = (w\<lparr>v_next_pool_ip := n\<rparr>, s)" "ip \<notin> dom (v_routes w)"
      "lo \<le> ip \<longrightarrow> ip \<le> v_pool_end w \<longrightarrow> ip < n" "v_next_pool_ip w \<le> n" by auto
    let ?st = "(w\<lparr>v_next_pool_ip := n, v_routes := (v_routes w)(ip \<mapsto> addr)\<rparr>, s\<lparr>s_assigned_ip := Some (V4 ip)\<rparr>)"
    have i: "locked_inv lo addr r ?st" using locked_inv_assign [OF _ n(2,3,4)] l st by blast
    have "push_request E addr st = push_reply_to E addr ip ?st"
      using c Inr n(1) by (simp add: push_request_def bindM_Ok thenM_Ok [of _ _ "()"] on_sess_def try_server_def st)
    moreover have "quiet_view (snd (push_reply_to E addr ip ?st)) = quiet_view ?st"
      using quiet_push_reply_to [of E addr ip] by (simp add: keeps_def same_def)
    ultimately show ?thesis using quiet_locked [OF _ i] by simp
  qed
qed

interpretation handler: push_relation "stays (locked_inv lo addr r)" addr for lo addr r
proof -
  have "key_relation (stays (locked_inv lo addr r))"
    by (rule key_relation_mono [OF quiet.key_relation_axioms])
      (auto simp: stays_def same_def intro: quiet_locked)
  then show "push_relation (stays (locked_inv lo addr r)) addr"
    by (intro push_relation.intro push_relation_axioms.intro push_request_inv)
qed

section \<open>Addresses, over all steps\<close>

lemma addr_inv_frame [simp]:
  "addr_inv lo (w\<lparr>v_tun := a\<rparr>) = addr_inv lo w" "addr_inv lo (w\<lparr>v_inbox := b\<rparr>) = addr_inv lo w"
  "addr_inv lo (w\<lparr>v_peers := c\<rparr>) = addr_inv lo w" "addr_inv lo (w\<lparr>v_data_routes := d\<rparr>) = addr_inv lo w"
  "addr_inv lo (w\<lparr>v_routes_v6 := f\<rparr>) = addr_inv lo w" "addr_inv lo (w\<lparr>v_next_peer_id := g\<rparr>) = addr_inv lo w"
  by (simp_all add: addr_inv_def refs_ok_def routed_def pool_ok_def served_def holds_def)

lemma addr_inv_locked:
  assumes "keeps (stays (locked_inv lo addr r)) m" "addr_inv lo w" "v_sessions w addr = Some r" "v_store w r = Some s"
  shows "addr_inv lo (put r (snd (m (w, s))))"
proof -
  have "locked_inv lo addr r (w, s)" using assms(2,3) put_id [OF assms(4)] by (simp add: locked_inv_def)
  then have "locked_inv lo addr r (snd (m (w, s)))" using assms(1) by (simp add: keeps_def stays_def)
  then show ?thesis by (simp add: locked_inv_def)
qed

lemma addr_inv_removed:
  assumes "addr_inv lo w" "v_sessions w addr = Some r" "v_store w r = Some s"
  shows "addr_inv lo (remove_ids s (w\<lparr>v_sessions := (v_sessions w)(addr := None)\<rparr>))" (is "addr_inv lo ?w")
proof -
  from assms(1) have i: "refs_ok w" "served session_ip (v_routes w) w" "pool_ok lo w"
    by (simp_all add: addr_inv_def routed_def)
  have rt: "v_routes ?w = (case session_ip s of Some i \<Rightarrow> (v_routes w)(i := None) | None \<Rightarrow> v_routes w)"
    by (auto simp: remove_ids_def session_ip_def split: option.split IpAddr.split)
  have "routed ?w" unfolding routed_def rt
    by (rule served_removed [OF i(2) assms(2,3)]) (simp_all add: remove_ids_def)
  moreover have "refs_ok ?w" using i(1) by (auto simp: refs_ok_def remove_ids_def)
  moreover have "dom (v_routes ?w) \<subseteq> dom (v_routes w)" unfolding rt by (auto split: option.splits if_splits)
  then have "pool_ok lo ?w" using i(3) by (auto simp: pool_ok_def remove_ids_def)
  ultimately show ?thesis by (simp add: addr_inv_def)
qed

lemma addr_inv_insert:
  assumes "addr_inv lo w" "s_assigned_ip s = None"
  shows "addr_inv lo (w\<lparr>v_store := (v_store w)(v_next_ref w \<mapsto> s), v_next_ref := v_next_ref w + 1,
           v_sessions := (v_sessions w)(addr \<mapsto> v_next_ref w), v_peers := p\<rparr>)" (is "addr_inv lo ?w")
proof -
  from assms(1) have i: "refs_ok w" "served session_ip (v_routes w) w" "pool_ok lo w"
    by (simp_all add: addr_inv_def routed_def)
  have "routed ?w"
    using served_insert [OF i(1,2), of s ?w addr] assms(2) by (simp add: routed_def session_ip_def)
  moreover have "refs_ok ?w" by (rule refs_ok_insert [OF i(1)]) simp_all
  moreover have "pool_ok lo ?w" using i(3) by (simp add: pool_ok_def)
  ultimately show ?thesis by (simp add: addr_inv_def)
qed

interpretation addresses: server_invariant "addr_inv lo" for lo
proof
  fix w :: "'c VpnServer" and a r and s :: "'c Session"
  assume i: "addr_inv lo w" and r: "v_store w r = Some s"
  show "addr_inv lo (put r (w, snd (open_data E dp aad s)))" for E dp aad
    using quiet_inv [of w "snd (open_data E dp aad s)" w s lo r] i put_id [OF r] by (simp add: quiet_view_def)
  assume a: "v_sessions w a = Some r"
  show "addr_inv lo (put r (snd (handle_session_packet E a ctrl p (w, s))))"
    if "cp_key_id ctrl AND 7 = cp_key_id ctrl" for E ctrl p
    using addr_inv_locked [OF handler.session_packet [OF that] i a r] .
  show "addr_inv lo (put r (snd (m (w, s))))" if "task E m" for E m
    using addr_inv_locked [OF task_keeps [OF that handler.lock_relation_axioms] i a r] .
  show "addr_inv lo (remove_ids s (w\<lparr>v_sessions := (v_sessions w)(a := None)\<rparr>))"
    by (rule addr_inv_removed [OF i a r])
next
  fix w :: "'c VpnServer" and a q tr and s :: "'c Session"
  assume "addr_inv lo w" "a \<notin> dom (v_sessions w)" "fresh_session q tr s"
  then show "addr_inv lo (register_session a q s w)"
    using addr_inv_insert [of lo w s _ a]
    by (simp add: register_session_def spawn_data_worker_def Let_def fresh_session_def)
qed (auto simp: addr_inv_def refs_ok_def routed_def pool_ok_def served_def holds_def)

end
