(* ===== verification/Server_Sess.thy ===== *)
theory Server_Sess
  imports Server_Inv
begin

text \<open>
  Well-formedness of every session of the running server: the handlers of \<open>src/src/server.rs\<close> keep the
  slots, the envelope counter and the link between a session's state, its keys and its address.
\<close>

section \<open>Well-formed sessions\<close>

text \<open>A session's slots are well formed, its envelope counter is never 0, it has a sending key from
  the moment it waits for \<open>PUSH_REQUEST\<close>, and an address once it is established.\<close>

definition sess_inv :: "'c Session \<Rightarrow> bool" where
  "sess_inv s \<longleftrightarrow> slots_ok s \<and> s_tls_auth_pid_out s \<noteq> 0 \<and>
     (s_state s \<in> {PushPending, Established} \<longrightarrow> active_slot s \<noteq> None) \<and>
     (s_state s = Established \<longrightarrow> session_ip s \<noteq> None)"

lemmas sess_inv_unfold = sess_inv_def slots_ok_def active_slot_def session_ip_def

definition sess_ok :: "'c VpnServer \<times> 'c Session \<Rightarrow> bool" where
  "sess_ok = (\<lambda>(w, s). sess_inv s)"

text \<open>The invariant reads five fields.\<close>

lemma sess_inv_same:
  "sess_inv s \<Longrightarrow> s_slots s' = s_slots s \<Longrightarrow> s_active_slot_idx s' = s_active_slot_idx s \<Longrightarrow>
   s_tls_auth_pid_out s' = s_tls_auth_pid_out s \<Longrightarrow> s_state s' = s_state s \<Longrightarrow>
   s_assigned_ip s' = s_assigned_ip s \<Longrightarrow> sess_inv s'"
  by (simp add: sess_inv_unfold)

lemma ok_on_sess: "(\<And>s. sess_inv s \<Longrightarrow> sess_inv (f s)) \<Longrightarrow> keeps (stays sess_ok) (on_sess f)"
  by (rule keeps_on_sess) (simp add: stays_def sess_ok_def)

lemma ok_call_sess: "(\<And>s. sess_inv s \<Longrightarrow> sess_inv (snd (f s))) \<Longrightarrow> keeps (stays sess_ok) (call_sess f)"
  by (rule keeps_call_sess) (simp add: stays_def sess_ok_def)

lemma ok_try_sess: "(\<And>s. sess_inv s \<Longrightarrow> sess_inv (snd (f s))) \<Longrightarrow> keeps (stays sess_ok) (try_sess f)"
  by (rule keeps_try_sess) (simp add: stays_def sess_ok_def)

lemma ok_try_server [keeps_intros]: "keeps (stays sess_ok) (try_server m)"
  by (rule keeps_try_server) (simp add: stays_def sess_ok_def)

lemma sess_inv_next_pid: "sess_inv s \<Longrightarrow> sess_inv (snd (next_tls_auth_pid s))"
  using envelope_pids.draw_valid [of s] by (simp add: sess_inv_unfold next_tls_auth_pid_def Let_def)

lemma sess_inv_wrap: "sess_inv s \<Longrightarrow> sess_inv (snd (wrap_for_wire E w inner s))"
  by (simp add: wrap_for_wire_def case_prod_beta Let_def sess_inv_next_pid split: option.split)

lemma ok_send_sess [keeps_intros]: "keeps (stays sess_ok) (send_sess E wire)"
  unfolding send_sess_def by (intro keeps_intros)

lemma ok_send_and_track [keeps_intros]: "keeps (stays sess_ok) (send_and_track E pkt)"
  unfolding send_and_track_def Let_def
  by (intro keeps_intros stays_preorder ok_try_sess ok_on_sess)
    (erule sess_inv_wrap, simp add: sess_inv_unfold record_sent_def)

lemma ok_send_chunk [keeps_intros]: "keeps (stays sess_ok) (send_chunk E k chunk)"
  unfolding send_chunk_def
  by (intro keeps_intros stays_preorder ok_call_sess)
    (simp add: sess_inv_unfold make_control_def alloc_packet_id_def Let_def)

lemma ok_flush [keeps_intros]: "keeps (stays sess_ok) (flush_outgoing E)"
  unfolding flush_outgoing_def sess_take_outgoing_def Let_def
  by (intro keeps_intros stays_preorder ok_call_sess ok_try_sess ok_on_sess)
    (auto simp: sess_inv_wrap case_prod_beta intro: sess_inv_same)

lemma update_Some_nth: "j < length xs \<Longrightarrow> xs ! j \<noteq> None \<Longrightarrow> xs[i := Some k] ! j \<noteq> None"
  by (cases "i = j") simp_all

lemma sess_inv_set_slot: "sess_inv s \<Longrightarrow> sess_inv (set_slot i k s)"
  using update_Some_nth [of "s_active_slot_idx s" "s_slots s" i k]
  by (auto simp: sess_inv_def slots_ok_def active_slot_def session_ip_def set_slot_def)

lemma sess_inv_install_slot: "sess_inv s \<Longrightarrow> sess_inv (install_slot k s)"
  by (simp add: install_slot_def sess_inv_set_slot)

lemma sess_inv_promote: "sess_inv s \<Longrightarrow> sess_inv (snd (promote_slot k s))"
  using position_Some [of "\<lambda>s. map_option ks_key_id s = Some k" "s_slots s"]
  by (auto simp: sess_inv_unfold promote_slot_def split: option.split)

lemma sess_inv_prf:
  assumes "sess_inv s"
  shows "sess_inv (snd (install_prf_slot A k s))"
    and "install_prf_slot A k s = (Inr x, s') \<Longrightarrow> active_slot s' \<noteq> None"
proof -
  have "slots_ok s" using assms by (simp add: sess_inv_def)
  then have "sess_inv ((set_slot 0 slot s)\<lparr>s_active_slot_idx := 0\<rparr>)" for slot
    using assms by (auto simp: sess_inv_unfold set_slot_def nth_list_update)
  then show "sess_inv (snd (install_prf_slot A k s))"
    using assms sess_inv_install_slot [OF assms]
    by (auto simp: install_prf_slot_def Let_def split: sum.split)
  show "install_prf_slot A k s = (Inr x, s') \<Longrightarrow> active_slot s' \<noteq> None"
    using \<open>slots_ok s\<close>
    by (auto simp: install_prf_slot_def Let_def install_slot_def set_slot_def active_slot_def slots_ok_def
        nth_list_update split: sum.splits if_splits)
qed

lemma ok_plaintext [keeps_intros]: "keeps (stays sess_ok) (sess_send_plaintext E data)"
  unfolding sess_send_plaintext_def
  by (intro ok_try_sess) (simp add: sess_inv_unfold case_prod_beta Let_def)

subsection \<open>The control plane\<close>

lemma sess_inv_drain: "sess_inv s \<Longrightarrow> sess_inv (drain_plaintext n s)"
  by (auto simp: drain_plaintext_def intro: sess_inv_same)

text \<open>With a key the session may wait for \<open>PUSH_REQUEST\<close>; with an address too it may be established.\<close>

definition keyed_ok :: "'c VpnServer \<times> 'c Session \<Rightarrow> bool" where
  "keyed_ok = (\<lambda>(w, s). sess_inv s \<and> active_slot s \<noteq> None)"

definition addressed_ok :: "'c VpnServer \<times> 'c Session \<Rightarrow> bool" where
  "addressed_ok = (\<lambda>(w, s). sess_inv s \<and> active_slot s \<noteq> None \<and> session_ip s \<noteq> None)"

lemma keyed_pending: "keeps (stays keyed_ok) (on_sess (\<lambda>s. s\<lparr>s_state := PushPending\<rparr>))"
  by (rule keeps_on_sess) (simp add: stays_def keyed_ok_def sess_inv_unfold)

lemma addressed_established: "keeps (stays addressed_ok) (on_sess (\<lambda>s. s\<lparr>s_state := Established\<rparr>))"
  by (rule keeps_on_sess) (simp add: stays_def addressed_ok_def sess_inv_unfold)

lemma keyed_plaintext: "keeps (stays keyed_ok) (sess_send_plaintext E data)"
  unfolding sess_send_plaintext_def
  by (rule keeps_try_sess) (simp add: stays_def keyed_ok_def sess_inv_unfold case_prod_beta Let_def)

lemma addressed_plaintext: "keeps (stays addressed_ok) (sess_send_plaintext E data)"
  unfolding sess_send_plaintext_def
  by (rule keeps_try_sess) (simp add: stays_def addressed_ok_def sess_inv_unfold case_prod_beta Let_def)

lemma addressed_try_server: "keeps (stays addressed_ok) (try_server m)"
  by (rule keeps_try_server) (simp add: stays_def addressed_ok_def)

lemma addressed_v6: "keeps (stays addressed_ok) (on_sess (\<lambda>s. s\<lparr>s_assigned_ip_v6 := x\<rparr>))"
  by (rule keeps_on_sess) (simp add: stays_def addressed_ok_def sess_inv_unfold)

lemma addressed_push_reply: "keeps (stays addressed_ok) (push_reply_to E addr ip)"
  unfolding push_reply_to_def
  by (intro keeps_intros stays_preorder addressed_try_server addressed_v6 addressed_plaintext
      addressed_established)

lemma ok_key_exchange [keeps_intros]: "keeps (stays sess_ok) (drive_key_exchange E)"
proof -
  let ?rest = "thenM (with_state (\<lambda>w s. sess_send_plaintext E
        (server_km2_reply (v_cfg w) (s_server_random1 s) (s_server_random2 s))))
      (thenM (on_sess (\<lambda>s. s\<lparr>s_state := PushPending\<rparr>)) (returnM True))"
  have rest: "keeps (stays keyed_ok) ?rest"
    by (intro keeps_intros stays_preorder keyed_plaintext keyed_pending)
  have "keeps (stays sess_ok) (thenM (try_sess (install_prf_slot (env_crypto E) 0)) ?rest)"
    unfolding keeps_def stays_def
  proof (intro allI impI)
    fix st :: "'a VpnServer \<times> 'a Session"
    obtain w s where st: "st = (w, s)" by force
    obtain r s' where i: "install_prf_slot (env_crypto E) 0 s = (r, s')" by (rule prod.exhaust)
    assume "sess_ok st"
    then have inv: "sess_inv s" by (simp add: sess_ok_def st)
    then have ok: "sess_inv s'" using sess_inv_prf(1) [OF inv, of "env_crypto E" 0] i by simp
    show "sess_ok (snd (thenM (try_sess (install_prf_slot (env_crypto E) 0)) ?rest st))"
    proof (cases r)
      case (Inl e)
      then show ?thesis using ok i by (simp add: thenM_def bindM_def try_sess_def st sess_ok_def)
    next
      case (Inr u)
      then have "keyed_ok (w, s')" using ok sess_inv_prf(2) [OF inv] i by (simp add: keyed_ok_def)
      then have "keyed_ok (snd (?rest (w, s')))" using rest by (simp add: keeps_def stays_def)
      then show ?thesis using Inr i
        by (simp add: thenM_Ok [of _ _ u "(w, s')"] try_sess_def st keyed_ok_def sess_ok_def case_prod_beta)
    qed
  qed
  then show ?thesis
    unfolding drive_key_exchange_def
    by (intro keeps_intros stays_preorder, split Pop.split)
      (auto intro!: keeps_intros ok_on_sess intro: sess_inv_same [OF sess_inv_drain])
qed

lemma sess_inv_closed: "sess_inv s \<Longrightarrow> sess_inv (s\<lparr>s_state := Closed\<rparr>)"
  by (simp add: sess_inv_unfold)

lemma ok_established [keeps_intros]: "keeps (stays sess_ok) drive_established"
  unfolding drive_established_def
  by (intro keeps_intros, split Pop.split)
    (auto intro!: keeps_intros ok_on_sess simp: sess_inv_drain sess_inv_closed)

lemma choose_ip_sess: "snd (snd (choose_ip (w, s))) = s"
  by (auto simp: choose_ip_def with_state_def try_server_def case_prod_beta Let_def
      split: option.split IpAddr.split)

text \<open>\<open>PUSH_REQUEST\<close> is only served in \<open>PushPending\<close>, where the session has a key.\<close>

lemma push_request_ok:
  assumes "keyed_ok st"
  shows "sess_ok (snd (push_request E addr st))"
proof -
  obtain w s where st: "st = (w, s)" by force
  obtain x w1 s1 where c: "choose_ip st = (x, (w1, s1))" by (metis prod.exhaust)
  have s1: "s1 = s" using choose_ip_sess [of w s] c st by simp
  show ?thesis
  proof (cases x)
    case (Inl e)
    then show ?thesis using c s1 assms by (simp add: push_request_def bindM_def sess_ok_def keyed_ok_def st)
  next
    case (Inr ip)
    let ?st = "(w1\<lparr>v_routes := (v_routes w1)(ip \<mapsto> addr)\<rparr>, s\<lparr>s_assigned_ip := Some (V4 ip)\<rparr>)"
    have "push_request E addr st = push_reply_to E addr ip ?st"
      using c Inr s1 by (simp add: push_request_def bindM_Ok thenM_Ok [of _ _ "()"] on_sess_def try_server_def)
    moreover have "addressed_ok ?st" using assms by (simp add: st keyed_ok_def addressed_ok_def sess_inv_unfold)
    then have "addressed_ok (snd (push_reply_to E addr ip ?st))"
      using addressed_push_reply [of E addr ip] by (simp add: keeps_def stays_def)
    ultimately show ?thesis by (simp add: addressed_ok_def sess_ok_def case_prod_beta)
  qed
qed

lemma drive_push_pending_ok:
  assumes "sess_inv s" "s_state s = PushPending"
  shows "sess_ok (snd (drive_push_pending E addr (w, s)))"
proof (cases "try_pop_ascii (plaintext_in (s_tls s))")
  case NeedMore
  then show ?thesis using assms by (simp add: drive_push_pending_def with_state_def sess_ok_def)
next
  case (Ready msg n)
  have k: "keyed_ok (w, drain_plaintext n s)"
    using assms sess_inv_drain [OF assms(1), of n]
    by (simp add: keyed_ok_def) (simp add: sess_inv_def drain_plaintext_def)
  let ?m = "if msg = ''PUSH_REQUEST'' then push_request E addr else returnM ()"
  have "sess_ok (snd (?m (w, drain_plaintext n s)))"
    using push_request_ok [OF k] k by (simp add: keyed_ok_def sess_ok_def)
  then show ?thesis
    using Ready by (simp add: drive_push_pending_def with_state_def on_sess_def thenM_Ok [of _ _ "()"])
qed

lemma ok_drive_step: "keeps (stays sess_ok) (drive_step E addr)"
  unfolding keeps_def stays_def
proof (intro allI impI)
  fix st :: "'a VpnServer \<times> 'a Session"
  obtain w s where st: "st = (w, s)" by force
  assume ok: "sess_ok st"
  then have "sess_inv s" by (simp add: st sess_ok_def)
  then show "sess_ok (snd (drive_step E addr st))"
    using ok drive_push_pending_ok [of s E addr w] ok_key_exchange [of E] ok_established
    by (auto simp: drive_step_def with_state_def st keeps_def stays_def split: State.split)
qed

subsection \<open>Rekey and the packet handler\<close>

lemma ok_rekey [keeps_intros]: "keeps (stays sess_ok) (handle_rekey_control E ctrl)"
proof -
  have d: "keeps (stays sess_ok) (drive_rekey_control_plane E)"
    unfolding drive_rekey_control_plane_def
    by (intro keeps_intros stays_preorder, split Pop.split)
      (auto intro!: keeps_intros ok_try_sess ok_on_sess simp: sess_inv_install_slot Let_def case_prod_beta
        intro: sess_inv_same split: sum.split)
  have f: "keeps (stays sess_ok) (flush_rekey_outgoing E)"
    unfolding flush_rekey_outgoing_def
    by (intro keeps_intros stays_preorder ok_call_sess) (auto simp: case_prod_beta intro: sess_inv_same)
  have e: "keeps (stays sess_ok) (rekey_feed E p rk)" for p rk
    unfolding rekey_feed_def
    by (intro ok_try_sess) (auto simp: case_prod_beta Let_def intro: sess_inv_same)
  have g: "sess_inv (finish_rekey E s)" if "sess_inv s" for s :: "'a Session"
    using that by (auto simp: finish_rekey_def split: option.split intro: sess_inv_same [OF sess_inv_promote])
  show ?thesis
    unfolding handle_rekey_control_def
    by (intro keeps_intros stays_preorder d f e ok_on_sess) (rule g)
qed

lemma ok_soft_reset [keeps_intros]: "keeps (stays sess_ok) (handle_soft_reset E ctrl)"
  unfolding handle_soft_reset_def
  by (intro keeps_intros stays_preorder ok_on_sess ok_call_sess)
    (auto simp: start_rekey_def make_soft_reset_reply_def alloc_packet_id_def Let_def intro: sess_inv_same)

lemma ok_sess_feed [keeps_intros]: "keeps (stays sess_ok) (sess_feed E payload)"
  unfolding sess_feed_def by (intro ok_try_sess) (auto simp: case_prod_beta Let_def intro: sess_inv_same)

lemma sess_inv_finalize: "sess_inv s \<Longrightarrow> sess_inv (finalize_keys T s)"
  by (simp add: finalize_keys_def Let_def sess_inv_unfold split: option.split sum.split)

lemma ok_handle_session_packet: "keeps (stays sess_ok) (handle_session_packet E addr ctrl replay_pid)"
proof -
  have v: "keeps (stays sess_ok) (handle_control_v1 E addr ctrl)"
    unfolding handle_control_v1_def
    by (intro keeps_intros stays_preorder ok_on_sess keeps_drive_control_plane ok_drive_step)
      (simp add: sess_inv_finalize)
  show ?thesis
    unfolding handle_session_packet_def
    by (intro keeps_intros stays_preorder ok_on_sess ok_try_sess keeps_session_op v)
      (auto simp: process_acks_def note_received_def case_prod_beta Let_def split: option.split
        intro: sess_inv_same)
qed

subsection \<open>All steps\<close>

definition all_sess_ok :: "'c VpnServer \<Rightarrow> bool" where
  "all_sess_ok w \<longleftrightarrow> (\<forall>r s. v_store w r = Some s \<longrightarrow> sess_inv s)"

text \<open>A locked program leaves the store to the lock.\<close>

lemma all_sess_ok_put:
  assumes "keeps (stays sess_ok) m" "keeps (same (v_store \<circ> fst)) m" "all_sess_ok w" "v_store w r = Some s"
  shows "all_sess_ok (put r (snd (m (w, s))))"
proof -
  obtain x w' s' where m: "m (w, s) = (x, (w', s'))" by (metis prod.exhaust)
  have "sess_inv s'"
    using keepsD [OF assms(1) m] assms(3,4) by (auto simp: stays_def sess_ok_def all_sess_ok_def)
  moreover have "v_store w' = v_store w" using keepsD [OF assms(2) m] by (simp add: same_def)
  ultimately show ?thesis using m assms(3) by (simp add: all_sess_ok_def)
qed

lemma store_try_server: "(\<And>w. v_store (snd (m w)) = v_store w) \<Longrightarrow> keeps (same (v_store \<circ> fst)) (try_server m)"
  by (rule keeps_try_server) (simp add: same_def)

lemma quiet_store: "keeps (same quiet_view) m \<Longrightarrow> keeps (same (v_store \<circ> fst)) m"
  by (auto simp: keeps_def same_def quiet_view_def case_prod_beta)

lemma store_push_request: "keeps (same (v_store \<circ> fst)) (push_request E addr)"
proof -
  have o: "keeps (same (v_store \<circ> fst)) (on_sess f)" for f by (rule keeps_on_sess) (simp add: same_def)
  have a: "keeps (same (v_store \<circ> fst)) (try_server allocate_ip)"
    by (rule store_try_server) (simp add: allocate_ip_def Let_def)
  have i: "keeps (same (v_store \<circ> fst)) (case x of V4 v4 \<Rightarrow> if v4 \<in> D then failM e else returnM v4
      | V6 v6 \<Rightarrow> failM f)" for x :: IpAddr and D e f
    by (cases x) (auto intro!: keeps_intros)
  have "keeps (same (v_store \<circ> fst)) choose_ip"
    unfolding choose_ip_def by (intro keeps_intros same_preorder a i)
  then show ?thesis
    unfolding push_request_def
    by (intro keeps_intros same_preorder o store_try_server quiet_store [OF quiet_push_reply_to]) simp_all
qed

interpretation stored: push_relation "same (v_store \<circ> fst)" addr for addr
  by unfold_locales (auto simp: same_def store_push_request)

lemma sess_inv_build: "sess_inv s \<Longrightarrow> sess_inv (snd (build_data_packet A pt s))"
  by (simp add: build_data_packet_def Let_def sess_inv_set_slot split: option.split)

lemma ok_send_data: "keeps (stays sess_ok) (bindM (try_sess (build_data_packet A pt)) (send_sess E))"
  by (intro keeps_intros stays_preorder ok_try_sess) (rule sess_inv_build)

lemma sess_inv_open_data: "sess_inv s \<Longrightarrow> sess_inv (snd (open_data E dp aad s))"
  by (auto simp: open_data_def Let_def case_prod_beta sess_inv_set_slot split: option.split sum.split
      intro: sess_inv_same [OF sess_inv_set_slot])

lemma ok_init_rekey: "keeps (stays sess_ok) (init_rekey E)"
proof -
  have "keeps (stays sess_ok) (case x of Inl e \<Rightarrow> returnM () | Inr new_tls \<Rightarrow>
      thenM (on_sess (\<lambda>s. (start_rekey k new_tls r1 r2 s)\<lparr>s_last_rekey_at := t\<rparr>))
       (bindM (call_sess (make_soft_reset_init k)) (send_and_track E)))" for x k r1 r2 t
    by (cases x) (auto intro!: keeps_intros ok_on_sess ok_call_sess intro: sess_inv_same
        simp: start_rekey_def make_soft_reset_init_def alloc_packet_id_def Let_def)
  then show ?thesis unfolding init_rekey_def Let_def by (intro keeps_intros stays_preorder)
qed

lemma ok_retransmit: "keeps (stays sess_ok) (retransmit E)"
proof -
  have w: "keeps (stays sess_ok) (rewrap E inner)" for inner
    unfolding keeps_def
  proof
    fix st :: "'a VpnServer \<times> 'a Session"
    obtain w s where st: "st = (w, s)" by force
    obtain r s' where "wrap_for_wire E w inner s = (r, s')" by (rule prod.exhaust)
    with sess_inv_wrap [of s E w inner] show "stays sess_ok st (snd (rewrap E inner st))"
      by (cases r) (simp_all add: st rewrap_def stays_def sess_ok_def)
  qed
  have r: "keeps (stays sess_ok) (rewrap_all E xs)" for xs
    by (induction xs) (simp_all only: rewrap_all.simps keeps_intros stays_preorder w)
  have i: "keeps (stays sess_ok) (send_ignoring E wire)" for wire
    using ok_send_sess [of E wire] by (simp add: keeps_def send_ignoring_def)
  show ?thesis
    unfolding retransmit_def
    by (intro keeps_intros stays_preorder ok_call_sess r i)
      (auto simp: stale_unacked_def case_prod_beta Let_def intro: sess_inv_same)
qed

lemma ok_task: "task E m \<Longrightarrow> keeps (stays sess_ok) m"
  by (induction rule: task.induct)
    (simp_all only: keeps_intros stays_preorder ok_init_rekey ok_retransmit ok_send_data)

lemma sess_inv_fresh: "fresh_session q tr s \<Longrightarrow> sess_inv s"
  by (simp add: fresh_session_def sess_inv_unfold)

interpretation sessions: server_invariant all_sess_ok
proof
  fix w :: "'c VpnServer" and a r and s :: "'c Session"
  assume i: "all_sess_ok w" and r: "v_store w r = Some s"
  have m: "keeps (stays sess_ok) (try_sess (open_data E dp aad))" for E :: "'c env" and dp aad
    by (rule ok_try_sess) (rule sess_inv_open_data)
  show "all_sess_ok (put r (w, snd (open_data E dp aad s)))" for E dp aad
    using all_sess_ok_put [OF m stored.opens i r, of E dp aad] by (simp add: try_sess_def case_prod_beta Let_def)
  show "all_sess_ok (put r (snd (handle_session_packet E a ctrl p (w, s))))"
    if "cp_key_id ctrl AND 7 = cp_key_id ctrl" for E ctrl p
    using all_sess_ok_put [OF ok_handle_session_packet stored.session_packet [OF that] i r] .
  show "all_sess_ok (put r (snd (m (w, s))))" if "task E m" for E m
    using all_sess_ok_put [OF ok_task [OF that] task_keeps [OF that stored.lock_relation_axioms] i r] .
qed (auto simp: all_sess_ok_def remove_ids_def register_session_def spawn_data_worker_def Let_def
    dest: sess_inv_fresh split: if_splits)

end
