(* ===== verification/Session_Runs.thy ===== *)
theory Session_Runs
  imports Server_Sess
begin

text \<open>
  What happens to one session object over a whole run of the server (\<open>src/src/server.rs\<close>). A preorder on
  sessions that the elementary changes respect relates a session at any time to the same session
  later (\<open>session_relation\<close>); a property of sessions that they keep and new sessions have holds of every
  session of every reachable state (\<open>session_invariant\<close>). Interpreted: what identifies a session never
  changes; key ids stay 3-bit, peer ids 24-bit, and every replay window stands for a set of ids.
\<close>

section \<open>Relations on sessions\<close>

text \<open>A relation on sessions as one on the locked pair: the store is left to the lock.\<close>

definition lifted :: "('c Session \<Rightarrow> 'c Session \<Rightarrow> bool) \<Rightarrow> 'c VpnServer \<times> 'c Session \<Rightarrow> 'c VpnServer \<times> 'c Session \<Rightarrow> bool" where
  "lifted Q = (\<lambda>(w, s) (w', s'). v_store w' = v_store w \<and> v_next_ref w' = v_next_ref w \<and>
     v_data_routes w' = v_data_routes w \<and> Q s s')"

lemma lifted_simp [simp]:
  "lifted Q (w, s) (w', s') \<longleftrightarrow> v_store w' = v_store w \<and> v_next_ref w' = v_next_ref w \<and>
     v_data_routes w' = v_data_routes w \<and> Q s s'"
  by (simp add: lifted_def)

lemma lifted_preorder: "reflp Q \<Longrightarrow> reflp (lifted Q)" "transp Q \<Longrightarrow> transp (lifted Q)"
  by (auto simp: lifted_def intro!: reflpI transpI dest: reflpD transpD)

lemma lifted_server:
  "reflp Q \<Longrightarrow> (\<And>w. v_store (snd (m w)) = v_store w \<and> v_next_ref (snd (m w)) = v_next_ref w \<and>
     v_data_routes (snd (m w)) = v_data_routes w) \<Longrightarrow> keeps (lifted Q) (try_server m)"
  by (rule keeps_try_server) (simp add: reflpD)

lemma lifted_push_request:
  assumes "reflp Q" "transp Q" and kept: "\<And>s s'. sess_core s' = sess_core s \<Longrightarrow> Q s s'"
    and addressed: "\<And>s x. Q s (s\<lparr>s_assigned_ip := x\<rparr>)" "\<And>s y. Q s (s\<lparr>s_assigned_ip_v6 := y\<rparr>)"
  shows "keeps (lifted Q) (push_request E addr)"
proof -
  note pre = lifted_preorder(1) [OF assms(1)] lifted_preorder(2) [OF assms(2)]
  note server = lifted_server [OF assms(1)]
  have i: "keeps (lifted Q) (case x of V4 v4 \<Rightarrow> if v4 \<in> D then failM e else returnM v4 | V6 v6 \<Rightarrow> failM f)"
    for x :: IpAddr and D e f
    by (cases x) (auto intro!: keeps_intros pre)
  have c: "keeps (lifted Q) choose_ip"
    unfolding choose_ip_def by (intro keeps_intros pre i server) (simp add: allocate_ip_def Let_def)
  have a: "keeps (lifted Q) (try_server allocate_ip_v6)"
    by (rule server) (auto simp: allocate_ip_v6_def Let_def split: option.split)
  have p: "keeps (lifted Q) (sess_send_plaintext E data)" for data
    unfolding sess_send_plaintext_def by (rule keeps_try_sess) (simp add: case_prod_beta Let_def kept)
  show ?thesis
    unfolding push_request_def push_reply_to_def
    by (intro keeps_intros pre c a p server keeps_on_sess) (simp_all add: addressed kept)
qed

locale session_relation =
  fixes Q :: "'c Session \<Rightarrow> 'c Session \<Rightarrow> bool"
  assumes reflQ: "reflp Q" and transQ: "transp Q"
    and kept: "sess_core s' = sess_core s \<Longrightarrow> Q s s'"
    and addressed: "Q s (s\<lparr>s_assigned_ip := x\<rparr>)" "Q s (s\<lparr>s_assigned_ip_v6 := y\<rparr>)"
    and sealing: "Q s (snd (build_data_packet A pt s))"
    and starting: "s_rekey s = None \<Longrightarrow> k AND 7 = k \<Longrightarrow> Q s (start_rekey k tls r1 r2 s)"
    and keying: "Q s (snd (install_prf_slot A 0 s))"
    and renewing: "s_rekey s = Some rk \<Longrightarrow> Q s (install_slot (new_slot (rk_key_id rk) key_data) s)"
    and promoting: "s_rekey s = Some rk \<Longrightarrow> Q s ((snd (promote_slot (rk_key_id rk) s))\<lparr>s_rekey := None\<rparr>)"
    and reading: "Q s (snd (open_data E dp aad s))"
begin

lemma lifted_push: "keeps (lifted Q) (push_request E addr)"
  by (rule lifted_push_request [OF reflQ transQ kept addressed])

sublocale lift: push_relation "lifted Q" addr for addr
  by unfold_locales
    (simp_all add: lifted_preorder reflQ transQ kept reflpD [OF reflQ] sealing starting keying renewing promoting
      reading lifted_push)

lemma lifted_packet:
  "cp_key_id ctrl AND 7 = cp_key_id ctrl \<Longrightarrow> lifted Q (w, s) (snd (handle_session_packet E a ctrl p (w, s)))"
  using lift.session_packet [of ctrl E a p] by (simp add: keeps_def)

lemma lifted_task: "task E m \<Longrightarrow> lifted Q (w, s) (snd (m (w, s)))"
  using task_keeps [OF _ lift.lock_relation_axioms] by (simp add: keeps_def)

end

section \<open>Sessions keep their place in the store\<close>

definition store_ok :: "'c VpnServer \<Rightarrow> bool" where
  "store_ok w \<longleftrightarrow> (\<forall>r. r \<in> dom (v_store w) \<longrightarrow> r < v_next_ref w)"

text \<open>Every session object of \<open>w0\<close> is still in the store of \<open>w\<close>, related by \<open>Q\<close>.\<close>

definition evolved :: "('c Session \<Rightarrow> 'c Session \<Rightarrow> bool) \<Rightarrow> 'c VpnServer \<Rightarrow> 'c VpnServer \<Rightarrow> bool" where
  "evolved Q w0 w \<longleftrightarrow> v_next_ref w0 \<le> v_next_ref w \<and>
     (\<forall>r s. v_store w0 r = Some s \<longrightarrow> r < v_next_ref w0 \<longrightarrow> (\<exists>s'. v_store w r = Some s' \<and> Q s s'))"

lemma evolved_frame: "v_store w' = v_store w \<Longrightarrow> v_next_ref w' = v_next_ref w \<Longrightarrow> evolved Q w0 w \<Longrightarrow> evolved Q w0 w'"
  by (simp add: evolved_def)

lemma evolved_put:
  assumes "transp Q" "evolved Q w0 w" "v_store w r = Some s" "lifted Q (w, s) st"
  shows "evolved Q w0 (put r st)"
proof -
  obtain w' s' where st: "st = (w', s')" by force
  with assms(4) have v: "v_store w' = v_store w" "v_next_ref w' = v_next_ref w" and q: "Q s s'" by simp_all
  have "\<exists>s2. v_store (put r st) x = Some s2 \<and> Q t s2" if "v_store w0 x = Some t" "x < v_next_ref w0" for x t
  proof -
    from assms(2) that obtain s1 where "v_store w x = Some s1" "Q t s1" by (auto simp: evolved_def)
    then show ?thesis using transpD [OF assms(1) _ q, of t] assms(3) by (auto simp: st v)
  qed
  then show ?thesis using assms(2) by (simp add: evolved_def st v)
qed

lemma evolved_register: "evolved Q w0 w \<Longrightarrow> evolved Q w0 (register_session a q s w)"
  by (auto simp: evolved_def register_session_def spawn_data_worker_def Let_def)

context session_relation
begin

lemma evolution: "server_invariant (evolved Q w0)"
proof
  fix w :: "'c VpnServer" and a r and s :: "'c Session"
  assume e: "evolved Q w0 w" and r: "v_store w r = Some s"
  show "evolved Q w0 (put r (w, snd (open_data E dp aad s)))" for E dp aad
    by (rule evolved_put [OF transQ e r]) (simp add: reading)
  show "evolved Q w0 (put r (snd (handle_session_packet E a ctrl p (w, s))))"
    if "cp_key_id ctrl AND 7 = cp_key_id ctrl" for E ctrl p
    using evolved_put [OF transQ e r lifted_packet [OF that]] .
  show "evolved Q w0 (put r (snd (m (w, s))))" if "task E m" for E m
    using evolved_put [OF transQ e r lifted_task [OF that]] .
qed (auto intro: evolved_frame evolved_register simp: remove_ids_def)

lemma evolves:
  assumes "reaches w w'" "store_ok w" "v_store w r = Some s"
  obtains s' where "v_store w' r = Some s'" "Q s s'"
proof -
  have "evolved Q w w" by (auto simp: evolved_def reflpD [OF reflQ])
  then have "evolved Q w w'" by (rule server_invariant.reachable [OF evolution assms(1)])
  moreover have "r < v_next_ref w" using assms(2,3) by (auto simp: store_ok_def)
  ultimately show thesis using assms(3) that by (auto simp: evolved_def)
qed

end

section \<open>Invariants of sessions\<close>

definition all_sessions :: "('c Session \<Rightarrow> bool) \<Rightarrow> 'c VpnServer \<Rightarrow> bool" where
  "all_sessions J w \<longleftrightarrow> (\<forall>r s. v_store w r = Some s \<longrightarrow> J s)"

locale session_invariant = session_relation "stays J"
  for J :: "'c Session \<Rightarrow> bool" +
  assumes initially: "fresh_session q tr s \<Longrightarrow> J s"
begin

lemma kept_by: "all_sessions J w \<Longrightarrow> v_store w r = Some s \<Longrightarrow> lifted (stays J) (w, s) st \<Longrightarrow> all_sessions J (put r st)"
  by (cases st) (auto simp: all_sessions_def stays_def)

sublocale invariant: server_invariant "all_sessions J"
proof
  fix w :: "'c VpnServer" and a r and s :: "'c Session"
  assume i: "all_sessions J w" and r: "v_store w r = Some s"
  show "all_sessions J (put r (w, snd (open_data E dp aad s)))" for E dp aad
    by (rule kept_by [OF i r]) (simp add: reading)
  show "all_sessions J (put r (snd (handle_session_packet E a ctrl p (w, s))))"
    if "cp_key_id ctrl AND 7 = cp_key_id ctrl" for E ctrl p
    using kept_by [OF i r lifted_packet [OF that]] .
  show "all_sessions J (put r (snd (m (w, s))))" if "task E m" for E m
    using kept_by [OF i r lifted_task [OF that]] .
qed (auto simp: all_sessions_def remove_ids_def register_session_def spawn_data_worker_def Let_def
    dest: initially split: if_splits)

end

section \<open>The store\<close>

interpretation anything: session_relation "\<lambda>s s'. True"
  by unfold_locales (simp_all add: reflp_def transp_def)

lemma store_ok_put: "store_ok w \<Longrightarrow> v_store w r = Some s \<Longrightarrow> lifted Q (w, s) st \<Longrightarrow> store_ok (put r st)"
  by (cases st) (auto simp: store_ok_def)

interpretation store: server_invariant store_ok
proof
  fix w :: "'c VpnServer" and a r and s :: "'c Session"
  assume i: "store_ok w" and r: "v_store w r = Some s"
  show "store_ok (put r (w, snd (open_data E dp aad s)))" for E dp aad
    using i r by (auto simp: store_ok_def)
  show "store_ok (put r (snd (handle_session_packet E a ctrl p (w, s))))"
    if "cp_key_id ctrl AND 7 = cp_key_id ctrl" for E ctrl p
    using store_ok_put [OF i r anything.lifted_packet [OF that]] .
  show "store_ok (put r (snd (m (w, s))))" if "task E m" for E m
    using store_ok_put [OF i r anything.lifted_task [OF that]] .
qed (auto simp: store_ok_def remove_ids_def register_session_def spawn_data_worker_def Let_def)

section \<open>Identity\<close>

definition identity :: "'c Session \<Rightarrow> u32 \<times> Transport \<times> u64 \<times> u64" where
  "identity s = (s_peer_id s, s_transport s, s_server_session_id s, s_client_session_id s)"

lemma slot_ops_identity [simp]:
  "identity (snd (build_data_packet A pt s)) = identity s" "identity (snd (install_prf_slot A k s)) = identity s"
  "identity (install_slot slot s) = identity s" "identity (snd (promote_slot k s)) = identity s"
  "identity (snd (open_data E dp aad s)) = identity s" "identity (start_rekey k tls r1 r2 s) = identity s"
  by (auto simp: build_data_packet_def install_prf_slot_def install_slot_def set_slot_def promote_slot_def
      open_data_def start_rekey_def Let_def case_prod_beta identity_def split: option.split sum.split)

lemma identity_updates [simp]:
  "identity (s\<lparr>s_assigned_ip := a\<rparr>) = identity s" "identity (s\<lparr>s_assigned_ip_v6 := b\<rparr>) = identity s"
  "identity (s\<lparr>s_rekey := c\<rparr>) = identity s"
  by (simp_all add: identity_def)

interpretation who: session_relation "same identity"
  by unfold_locales (auto simp: same_def, auto simp: sess_core_def identity_def)

text \<open>A peer id of the data channel leads to a session with that peer id.\<close>

definition peers_ok :: "'c VpnServer \<Rightarrow> bool" where
  "peers_ok w \<longleftrightarrow> (\<forall>p r. v_data_routes w p = Some r \<longrightarrow> (\<exists>s. v_store w r = Some s \<and> s_peer_id s = p))"

lemma peers_ok_put:
  assumes "store_ok w \<and> peers_ok w" "v_store w r = Some s" "lifted (same identity) (w, s) st"
  shows "store_ok (put r st) \<and> peers_ok (put r st)"
proof (cases st)
  case (Pair w' s')
  then have "s_peer_id s' = s_peer_id s" using assms(3) by (simp add: same_def identity_def)
  then have "peers_ok (put r st)" using assms Pair by (fastforce simp: peers_ok_def)
  then show ?thesis using store_ok_put [OF _ assms(2,3)] assms(1) by blast
qed

lemma peers_ok_fewer:
  "peers_ok w \<Longrightarrow> v_store w' = v_store w \<Longrightarrow> v_data_routes w' \<subseteq>\<^sub>m v_data_routes w \<Longrightarrow> peers_ok w'"
  by (simp add: peers_ok_def map_le_def dom_def)

lemma removed_fewer: "v_data_routes (remove_ids s w) \<subseteq>\<^sub>m v_data_routes w"
  by (auto simp: remove_ids_def map_le_def)

lemma peers_ok_register:
  assumes "store_ok w" "peers_ok w" "s_peer_id s = q"
  shows "peers_ok (register_session a q s w)"
proof -
  have "r \<noteq> v_next_ref w" if "v_store w r = Some t" for r t using assms(1) that by (auto simp: store_ok_def)
  then show ?thesis using assms(2,3)
    by (fastforce simp: peers_ok_def register_session_def spawn_data_worker_def Let_def)
qed

interpretation peers: server_invariant "\<lambda>w. store_ok w \<and> peers_ok w"
proof
  fix w :: "'c VpnServer" and a r and s :: "'c Session"
  assume i: "store_ok w \<and> peers_ok w" and r: "v_store w r = Some s"
  show "store_ok (put r (w, snd (open_data E dp aad s))) \<and> peers_ok (put r (w, snd (open_data E dp aad s)))" for E dp aad
    by (rule peers_ok_put [OF i r]) (simp add: same_def)
  show "store_ok (put r (snd (handle_session_packet E a ctrl p (w, s)))) \<and>
      peers_ok (put r (snd (handle_session_packet E a ctrl p (w, s))))"
    if "cp_key_id ctrl AND 7 = cp_key_id ctrl" for E ctrl p
    using peers_ok_put [OF i r who.lifted_packet [OF that]] .
  show "store_ok (put r (snd (m (w, s)))) \<and> peers_ok (put r (snd (m (w, s))))" if "task E m" for E m
    using peers_ok_put [OF i r who.lifted_task [OF that]] .
  assume "v_sessions w a = Some r"
  with i r show "store_ok (remove_ids s (w\<lparr>v_sessions := (v_sessions w)(a := None)\<rparr>)) \<and>
      peers_ok (remove_ids s (w\<lparr>v_sessions := (v_sessions w)(a := None)\<rparr>))"
    using store.removed [of w a r s] removed_fewer [of s "w\<lparr>v_sessions := (v_sessions w)(a := None)\<rparr>"]
    by (auto intro: peers_ok_fewer simp: remove_ids_def)
next
  fix w :: "'c VpnServer" and a q tr and s :: "'c Session"
  assume "store_ok w \<and> peers_ok w" "a \<notin> dom (v_sessions w)" "fresh_session q tr s"
  then show "store_ok (register_session a q s w) \<and> peers_ok (register_session a q s w)"
    using store.registered [of w a q tr s] peers_ok_register [of w s q a] by (simp add: fresh_session_def)
qed (auto simp: store_ok_def peers_ok_def)

section \<open>Keys\<close>

definition slot_ok :: "KeySlot \<Rightarrow> bool" where
  "slot_ok slot \<longleftrightarrow> ks_key_id slot AND 7 = ks_key_id slot \<and> (\<exists>seen. window_sim (ks_replay slot) seen)"

definition keys_ok :: "'c Session \<Rightarrow> bool" where
  "keys_ok s \<longleftrightarrow> (\<forall>slot. Some slot \<in> set (s_slots s) \<longrightarrow> slot_ok slot) \<and>
     (\<forall>rk. s_rekey s = Some rk \<longrightarrow> rk_key_id rk AND 7 = rk_key_id rk) \<and> s_peer_id s AND 0x00FFFFFF = s_peer_id s"

lemma keys_ok_set_slot: "keys_ok s \<Longrightarrow> slot_ok slot \<Longrightarrow> keys_ok (set_slot i slot s)"
  using set_update_subset_insert [of "s_slots s" i "Some slot"] by (auto simp: keys_ok_def set_slot_def)

lemma keys_ok_nth: "keys_ok s \<Longrightarrow> i < length (s_slots s) \<Longrightarrow> s_slots s ! i = Some slot \<Longrightarrow> slot_ok slot"
  unfolding keys_ok_def using nth_mem by metis

lemma slot_ok_new: "k AND 7 = k \<Longrightarrow> slot_ok (new_slot k key_data)"
  using window_sim_new by (auto simp: slot_ok_def new_slot_def)

lemma keys_ok_core: "sess_core s' = sess_core s \<Longrightarrow> keys_ok s \<Longrightarrow> keys_ok s'"
  by (cases "s_rekey s") (auto simp: sess_core_def keys_ok_def)

lemma keys_ok_updates:
  "keys_ok s \<Longrightarrow> keys_ok (s\<lparr>s_assigned_ip := a\<rparr>)" "keys_ok s \<Longrightarrow> keys_ok (s\<lparr>s_assigned_ip_v6 := b\<rparr>)"
  "keys_ok s \<Longrightarrow> keys_ok (s\<lparr>s_active_slot_idx := i\<rparr>)" "keys_ok s \<Longrightarrow> keys_ok (s\<lparr>s_rekey := None\<rparr>)"
  "keys_ok s \<Longrightarrow> keys_ok (s\<lparr>s_last_seen := t\<rparr>)"
  by (simp_all add: keys_ok_def)

lemma keys_ok_build: "keys_ok s \<Longrightarrow> keys_ok (snd (build_data_packet A pt s))"
proof (cases "active_slot s")
  case (Some slot)
  assume k: "keys_ok s"
  have "keys_ok (set_slot (s_active_slot_idx s) (slot\<lparr>ks_data_pid_out := n\<rparr>) s)" for n
  proof (cases "s_active_slot_idx s < length (s_slots s)")
    case True
    then have "slot_ok slot" using keys_ok_nth [OF k] Some by (simp add: active_slot_def)
    then show ?thesis by (intro keys_ok_set_slot k) (simp add: slot_ok_def)
  next
    case False
    then show ?thesis using k by (simp add: set_slot_def list_update_beyond)
  qed
  then show ?thesis using Some by (simp add: build_data_packet_def Let_def)
qed (simp add: build_data_packet_def)

lemma keys_ok_open: "keys_ok s \<Longrightarrow> keys_ok (snd (open_data E dp aad s))"
proof (cases "slot_by_key_id (dp_key_id dp) s")
  case (Some x)
  assume k: "keys_ok s"
  obtain i slot where x: "x = (i, slot)" by (rule prod.exhaust)
  then have i: "position (\<lambda>x. map_option ks_key_id x = Some (dp_key_id dp)) (s_slots s) = Some i" "s_slots s ! i = Some slot"
    using Some by (auto simp: slot_by_key_id_def split: option.splits)
  then have ok: "slot_ok slot" using keys_ok_nth [OF k _ i(2)] position_Some [OF i(1)] by blast
  obtain seen where sim: "window_sim (ks_replay slot) seen" using ok by (auto simp: slot_ok_def)
  have "slot_ok (slot\<lparr>ks_replay := snd (check_and_set (ks_replay slot) p)\<rparr>)" for p
    using rw.check_sim [OF sim, of p] ok by (auto simp: slot_ok_def)
  then show ?thesis using Some x k
    by (auto simp: open_data_def Let_def case_prod_beta intro!: keys_ok_set_slot keys_ok_updates split: sum.split)
qed (simp add: open_data_def)

interpretation keys: session_invariant keys_ok
proof
  fix s :: "'c Session"
  show "stays keys_ok s (snd (install_prf_slot A 0 s))" for A
    by (auto simp: stays_def install_prf_slot_def install_slot_def Let_def
        intro!: keys_ok_set_slot keys_ok_updates slot_ok_new split: sum.split)
  show "stays keys_ok s (install_slot (new_slot (rk_key_id rk) key_data) s)" if "s_rekey s = Some rk" for rk key_data
    using that by (auto simp: stays_def install_slot_def keys_ok_def [of s] intro!: keys_ok_set_slot slot_ok_new)
  show "stays keys_ok s ((snd (promote_slot k s))\<lparr>s_rekey := None\<rparr>)" for k
    by (auto simp: stays_def promote_slot_def intro: keys_ok_updates split: option.split)
  show "stays keys_ok s (start_rekey k tls r1 r2 s)" if "k AND 7 = k" for k tls r1 r2
    using that by (simp add: stays_def keys_ok_def start_rekey_def)
qed (auto simp: stays_def fresh_session_def intro: keys_ok_core keys_ok_updates keys_ok_build keys_ok_open,
    auto simp: keys_ok_def)

end
