(* ===== verification/Addresses6.thy ===== *)
theory Addresses6
  imports Server_Inv
begin

text \<open>
  The IPv6 side of the address assignment of \<open>src/src/server.rs\<close>: \<open>allocate_ip_v6\<close>, the field
  \<open>assigned_ip_v6\<close> of a session and the map \<open>routes_v6\<close>, over all steps. There are no static IPv6 addresses,
  so every routed address comes from the counter.
\<close>

section \<open>What the handlers leave alone\<close>

definition quiet6_view :: "'c VpnServer \<times> 'c Session \<Rightarrow> _" where
  "quiet6_view = (\<lambda>(w, s). (s_assigned_ip_v6 s, v_routes_v6 w, v_sessions w, v_store w, v_next_ref w,
     v_next_pool_ip_v6 w, v_pool_end_v6 w))"

lemma slot_ops_ip6 [simp]:
  "s_assigned_ip_v6 (snd (build_data_packet A pt s)) = s_assigned_ip_v6 s"
  "s_assigned_ip_v6 (snd (install_prf_slot A k s)) = s_assigned_ip_v6 s"
  "s_assigned_ip_v6 (install_slot slot s) = s_assigned_ip_v6 s"
  "s_assigned_ip_v6 (snd (promote_slot k s)) = s_assigned_ip_v6 s"
  "s_assigned_ip_v6 (snd (open_data E dp aad s)) = s_assigned_ip_v6 s"
  "s_assigned_ip_v6 (start_rekey k tls r1 r2 s) = s_assigned_ip_v6 s"
  by (auto simp: build_data_packet_def install_prf_slot_def install_slot_def set_slot_def promote_slot_def
      open_data_def start_rekey_def Let_def case_prod_beta split: option.split sum.split)

interpretation quiet6: key_relation "same quiet6_view"
  by unfold_locales (auto simp: same_def quiet6_view_def sess_core_def)

section \<open>The invariant\<close>

definition pool6_ok :: "'c VpnServer \<Rightarrow> bool" where
  "pool6_ok w \<longleftrightarrow>
     (\<forall>ip \<in> dom (v_routes_v6 w). \<exists>n. v_next_pool_ip_v6 w = Some n \<and> ip < n) \<and>
     (\<forall>e. v_pool_end_v6 w = Some e \<longrightarrow> e < - 1)"

definition addr6_inv :: "'c VpnServer \<Rightarrow> bool" where
  "addr6_inv w \<longleftrightarrow> refs_ok w \<and> served s_assigned_ip_v6 (v_routes_v6 w) w \<and> pool6_ok w"

definition locked6_inv :: "SocketAddr \<Rightarrow> nat \<Rightarrow> 'c VpnServer \<times> 'c Session \<Rightarrow> bool" where
  "locked6_inv addr r st \<longleftrightarrow> v_sessions (fst st) addr = Some r \<and> addr6_inv (put r st)"

lemma quiet6_inv:
  assumes "quiet6_view (w', s') = quiet6_view (w, s)"
  shows "addr6_inv (put r (w', s')) = addr6_inv (put r (w, s))"
proof -
  have v: "v_routes_v6 w' = v_routes_v6 w" "v_sessions w' = v_sessions w" "v_store w' = v_store w"
    "v_next_ref w' = v_next_ref w" "v_next_pool_ip_v6 w' = v_next_pool_ip_v6 w"
    "v_pool_end_v6 w' = v_pool_end_v6 w" "s_assigned_ip_v6 s' = s_assigned_ip_v6 s"
    using assms by (simp_all add: quiet6_view_def)
  have "served s_assigned_ip_v6 (v_routes_v6 w) (put r (w', s')) = served s_assigned_ip_v6 (v_routes_v6 w) (put r (w, s))"
    unfolding served_def holds_put_same [of s_assigned_ip_v6 s' s w' w r, OF v(7,2,3)] ..
  then show ?thesis by (simp add: addr6_inv_def refs_ok_def pool6_ok_def v)
qed

lemma quiet6_locked: "quiet6_view y = quiet6_view x \<Longrightarrow> locked6_inv addr r x \<Longrightarrow> locked6_inv addr r y"
  using quiet6_inv [of "fst y" "snd y" "fst x" "snd x" r]
  by (simp add: locked6_inv_def) (simp add: quiet6_view_def case_prod_beta)

lemma less_succ128: "(x :: Ipv6Addr) < - 1 \<Longrightarrow> x < x + 1"
proof -
  assume "x < - 1"
  then have "1 + x \<noteq> 0" by (metis add_eq_0_iff less_irrefl)
  then show "x < x + 1" using unatSuc [of x] by (simp add: word_less_nat_alt add.commute)
qed

lemma locked6_assign:
  assumes l: "locked6_inv addr r (w, s)" and n: "v_next_pool_ip_v6 w = Some ip" "ip < - 1"
  shows "locked6_inv addr r (w\<lparr>v_next_pool_ip_v6 := Some (ip + 1), v_routes_v6 := (v_routes_v6 w)(ip \<mapsto> addr)\<rparr>,
           s\<lparr>s_assigned_ip_v6 := Some ip\<rparr>)" (is "locked6_inv addr r ?st")
proof -
  from l have i: "v_sessions w addr = Some r" "refs_ok (put r (w, s))"
    "served s_assigned_ip_v6 (v_routes_v6 w) (put r (w, s))" "pool6_ok (put r (w, s))"
    by (simp_all add: locked6_inv_def addr6_inv_def)
  have below: "x < ip" if "x \<in> dom (v_routes_v6 w)" for x
    using i(4) n(1) that by (auto simp: pool6_ok_def)
  have "v_routes_v6 w ip = None" using below [of ip] by (meson domIff less_irrefl)
  then have "served s_assigned_ip_v6 ((v_routes_v6 w)(ip \<mapsto> addr)) (put r ?st)"
    by (intro served_assign [OF i(3,2,1)]) simp_all
  moreover have "refs_ok (put r ?st)" using i(2) by (simp add: refs_ok_def)
  moreover have "pool6_ok (put r ?st)"
    using i(4) below less_succ128 [OF n(2)] by (auto simp: pool6_ok_def dest: order.strict_trans)
  ultimately show ?thesis using i(1) by (simp add: locked6_inv_def addr6_inv_def)
qed

text \<open>The IPv6 part of \<open>PUSH_REQUEST\<close>.\<close>

lemma push_reply_inv6: "keeps (stays (locked6_inv addr r)) (push_reply_to E addr ip)"
  unfolding keeps_def stays_def
proof (intro allI impI)
  fix st :: "'a VpnServer \<times> 'a Session"
  obtain w s where st: "st = (w, s)" by force
  assume l: "locked6_inv addr r st"
  have tail: "keeps (same quiet6_view) (thenM (with_state (\<lambda>w s. sess_send_plaintext E (f w s)))
      (on_sess (\<lambda>s. s\<lparr>s_state := Established\<rparr>)))" for f
    by (intro keeps_intros same_preorder quiet6.plaintext quiet6.on_frame) simp
  then have tail_inv: "locked6_inv addr r (snd (thenM (with_state (\<lambda>w s. sess_send_plaintext E (f w s)))
      (on_sess (\<lambda>s. s\<lparr>s_state := Established\<rparr>)) x))" if "locked6_inv addr r x" for f x
    using quiet6_locked [OF _ that] by (simp add: keeps_def same_def)
  obtain x w1 where a: "allocate_ip_v6 w = (x, w1)" by (rule prod.exhaust)
  then have t: "try_server allocate_ip_v6 (w, s) = (x, (w1, s))" by (simp add: try_server_def)
  show "locked6_inv addr r (snd (push_reply_to E addr ip st))"
  proof (cases x)
    case (Inl e)
    then have "w1 = w" using a by (auto simp: allocate_ip_v6_def split: option.splits if_splits)
    then show ?thesis using Inl t l by (simp add: push_reply_to_def bindM_Err st)
  next
    case (Inr ip6)
    show ?thesis
    proof (cases ip6)
      case None
      then have "w1 = w" using Inr a by (auto simp: allocate_ip_v6_def split: option.splits if_splits)
      then show ?thesis using None Inr t tail_inv [OF l] by (simp add: push_reply_to_def bindM_Ok st run_return)
    next
      case (Some v6)
      then have n: "v_next_pool_ip_v6 w = Some v6" "w1 = w\<lparr>v_next_pool_ip_v6 := Some (v6 + 1)\<rparr>"
        and "\<exists>e. v_pool_end_v6 w = Some e \<and> v6 \<le> e"
        using Inr a by (auto simp: allocate_ip_v6_def split: option.splits if_splits)
      then have "v6 < - 1" using l by (auto simp: locked6_inv_def addr6_inv_def pool6_ok_def st dest: order.strict_trans1)
      from tail_inv [OF locked6_assign [OF l [unfolded st] n(1) this]] show ?thesis
        using Some Inr t n(2) by (simp add: push_reply_to_def bindM_Ok st run_assoc run_on run_server)
    qed
  qed
qed

lemma push_request_inv6: "keeps (stays (locked6_inv addr r)) (push_request E addr)"
proof -
  let ?R = "stays (locked6_inv addr r)"
  have a: "keeps (same quiet6_view) (try_server allocate_ip)"
    by (rule keeps_try_server) (simp add: same_def quiet6_view_def allocate_ip_def Let_def)
  have i: "keeps (same quiet6_view) (case x of V4 v4 \<Rightarrow> if v4 \<in> D then failM e else returnM v4
      | V6 v6 \<Rightarrow> failM f)" for x :: IpAddr and D e f
    by (cases x) (auto intro!: keeps_intros)
  have c: "keeps (same quiet6_view) choose_ip"
    unfolding choose_ip_def by (intro keeps_intros same_preorder a i)
  have s: "keeps (same quiet6_view) (on_sess (\<lambda>s. s\<lparr>s_assigned_ip := x\<rparr>))" for x
    by (rule keeps_on_sess) (simp add: same_def quiet6_view_def)
  have r: "keeps (same quiet6_view) (try_server (updM (\<lambda>w. w\<lparr>v_routes := f w\<rparr>)))" for f
    by (rule keeps_try_server) (simp add: same_def quiet6_view_def)
  have c': "keeps ?R choose_ip" by (rule keeps_same_stays [OF c]) (rule quiet6_locked)
  show ?thesis
    unfolding push_request_def
    by (intro keeps_intros stays_preorder c' keeps_same_stays [OF s] keeps_same_stays [OF r] push_reply_inv6)
      (blast intro: quiet6_locked)+
qed

interpretation handler6: push_relation "stays (locked6_inv addr r)" addr for addr r
proof -
  have "key_relation (stays (locked6_inv addr r))"
    by (rule key_relation_mono [OF quiet6.key_relation_axioms])
      (auto simp: stays_def same_def intro: quiet6_locked)
  then show "push_relation (stays (locked6_inv addr r)) addr"
    by (intro push_relation.intro push_relation_axioms.intro push_request_inv6)
qed

section \<open>All steps\<close>

lemma addr6_inv_locked:
  assumes "keeps (stays (locked6_inv addr r)) m" "addr6_inv w" "v_sessions w addr = Some r" "v_store w r = Some s"
  shows "addr6_inv (put r (snd (m (w, s))))"
proof -
  have "locked6_inv addr r (w, s)" using assms(2,3) put_id [OF assms(4)] by (simp add: locked6_inv_def)
  then have "locked6_inv addr r (snd (m (w, s)))" using assms(1) by (simp add: keeps_def stays_def)
  then show ?thesis by (simp add: locked6_inv_def)
qed

lemma addr6_inv_removed:
  assumes "addr6_inv w" "v_sessions w addr = Some r" "v_store w r = Some s"
  shows "addr6_inv (remove_ids s (w\<lparr>v_sessions := (v_sessions w)(addr := None)\<rparr>))" (is "addr6_inv ?w")
proof -
  from assms(1) have i: "refs_ok w" "served s_assigned_ip_v6 (v_routes_v6 w) w" "pool6_ok w"
    by (simp_all add: addr6_inv_def)
  have rt: "v_routes_v6 ?w = (case s_assigned_ip_v6 s of Some i \<Rightarrow> (v_routes_v6 w)(i := None) | None \<Rightarrow> v_routes_v6 w)"
    by (simp add: remove_ids_def split: option.split)
  have "served s_assigned_ip_v6 (v_routes_v6 ?w) ?w" unfolding rt
    by (rule served_removed [OF i(2) assms(2,3)]) (simp_all add: remove_ids_def)
  moreover have "refs_ok ?w" using i(1) by (auto simp: refs_ok_def remove_ids_def)
  moreover have "dom (v_routes_v6 ?w) \<subseteq> dom (v_routes_v6 w)" unfolding rt by (auto split: option.splits if_splits)
  then have "pool6_ok ?w" using i(3) by (auto simp: pool6_ok_def remove_ids_def)
  ultimately show ?thesis by (simp add: addr6_inv_def)
qed

interpretation addresses6: server_invariant addr6_inv
proof
  fix w :: "'c VpnServer" and a r and s :: "'c Session"
  assume i: "addr6_inv w" and r: "v_store w r = Some s"
  show "addr6_inv (put r (w, snd (open_data E dp aad s)))" for E dp aad
    using quiet6_inv [of w "snd (open_data E dp aad s)" w s r] i put_id [OF r] by (simp add: quiet6_view_def)
  assume a: "v_sessions w a = Some r"
  show "addr6_inv (put r (snd (handle_session_packet E a ctrl p (w, s))))"
    if "cp_key_id ctrl AND 7 = cp_key_id ctrl" for E ctrl p
    using addr6_inv_locked [OF handler6.session_packet [OF that] i a r] .
  show "addr6_inv (put r (snd (m (w, s))))" if "task E m" for E m
    using addr6_inv_locked [OF task_keeps [OF that handler6.lock_relation_axioms] i a r] .
  show "addr6_inv (remove_ids s (w\<lparr>v_sessions := (v_sessions w)(a := None)\<rparr>))"
    by (rule addr6_inv_removed [OF i a r])
next
  fix w :: "'c VpnServer" and a q tr and s :: "'c Session"
  assume i: "addr6_inv w" and f: "fresh_session q tr s"
  let ?w = "register_session a q s w"
  have v: "v_sessions ?w = (v_sessions w)(a \<mapsto> v_next_ref w)" "v_store ?w = (v_store w)(v_next_ref w \<mapsto> s)"
    "v_next_ref ?w = v_next_ref w + 1" "v_routes_v6 ?w = v_routes_v6 w"
    "v_next_pool_ip_v6 ?w = v_next_pool_ip_v6 w" "v_pool_end_v6 ?w = v_pool_end_v6 w"
    by (simp_all add: register_session_def spawn_data_worker_def Let_def)
  show "addr6_inv ?w"
    using i served_insert [OF _ _ _ v(1,2), of s_assigned_ip_v6 "v_routes_v6 w"] refs_ok_insert [OF _ v(1-3)] f
    by (simp add: addr6_inv_def v(4) pool6_ok_def v(5,6) fresh_session_def)
qed (auto simp: addr6_inv_def refs_ok_def pool6_ok_def served_def holds_def)

end
