(* ===== verification/Masquerade.thy ===== *)
theory Masquerade
  imports Push_Reply Exec "HOL-Library.Multiset"
begin

text \<open>
  The NAT set-up of \<open>src/src/nat.rs\<close> (the Linux build): enabling forwarding, installing the three
  iptables rules, and undoing it when the guard is dropped. The host is a parameter: \<open>'h\<close> is its
  state and \<open>host_api\<close> the calls the code makes (running a program with an argument list, reading and
  writing files). \<open>iptables_law\<close> states what iptables documents of \<open>-A\<close> (append a rule) and \<open>-D\<close>
  (delete one matching rule, or fail).
\<close>

section \<open>Model\<close>

text \<open>\<open>host_command prog args\<close>: \<open>Err\<close> when the program could not be run, otherwise whether its exit status
  was a success.\<close>

record 'h host_api =
  host_command :: "rstring \<Rightarrow> rstring list \<Rightarrow> ('h, bool) exec"
  host_read :: "rstring \<Rightarrow> 'h \<Rightarrow> rstring result"
  host_write :: "rstring \<Rightarrow> rstring \<Rightarrow> ('h, unit) exec"

record NatGuard =
  ng_tun_iface :: rstring
  ng_wan_iface :: rstring
  ng_cidr :: rstring
  ng_prior_ip_forward :: "bool option"

definition iptables_run :: "'h host_api \<Rightarrow> rstring list \<Rightarrow> ('h, unit) exec" where
  "iptables_run H args =
     bindM (host_command H ''iptables'' args) (\<lambda>success. if \<not> success then failM (Bail ''iptables failed'' []) else returnM ())"

definition ip_forward_path :: rstring where
  "ip_forward_path = ''/proc/sys/net/ipv4/ip_forward''"

definition read_ip_forward :: "'h host_api \<Rightarrow> 'h \<Rightarrow> bool result" where
  "read_ip_forward H h = and_then (host_read H ip_forward_path h) (\<lambda>s. Ok (trim s = ''1''))"

definition set_ip_forward :: "'h host_api \<Rightarrow> bool \<Rightarrow> ('h, unit) exec" where
  "set_ip_forward H on =
     host_write H ip_forward_path (if on then ''1'' @ [CHR 0x0A] else ''0'' @ [CHR 0x0A])"

text \<open>\<open>u32::leading_ones\<close>.\<close>

definition leading_ones :: "u32 \<Rightarrow> nat" where
  "leading_ones m = length (takeWhile (\<lambda>i. bit m i) (rev [0..<32]))"

definition subnet_to_cidr :: "Ipv4Addr \<Rightarrow> Ipv4Addr \<Rightarrow> rstring" where
  "subnet_to_cidr ip netmask =
     (let prefix = leading_ones netmask; network = ip AND netmask
      in show_ipv4 network @ ''/'' @ show_dec prefix)"

text \<open>The argument lists, with the command (\<open>-A\<close> or \<open>-D\<close>) as a parameter.\<close>

definition masquerade_args :: "rstring \<Rightarrow> rstring \<Rightarrow> rstring \<Rightarrow> rstring list" where
  "masquerade_args cmd cidr wan = [''-t'', ''nat'', cmd, ''POSTROUTING'', ''-s'', cidr, ''-o'', wan, ''-j'', ''MASQUERADE'']"

definition forward_args :: "rstring \<Rightarrow> rstring \<Rightarrow> rstring \<Rightarrow> rstring list" where
  "forward_args cmd tun wan = [cmd, ''FORWARD'', ''-i'', tun, ''-o'', wan, ''-j'', ''ACCEPT'']"

definition established_args :: "rstring \<Rightarrow> rstring \<Rightarrow> rstring \<Rightarrow> rstring list" where
  "established_args cmd tun wan =
     [cmd, ''FORWARD'', ''-i'', wan, ''-o'', tun, ''-m'', ''state'', ''--state'', ''RELATED,ESTABLISHED'',
      ''-j'', ''ACCEPT'']"

text \<open>\<open>let _ = m;\<close>.\<close>

definition ignoreM :: "('h, unit) exec \<Rightarrow> ('h, unit) exec" where
  "ignoreM m = (\<lambda>h. (Ok (), snd (m h)))"

definition enable_masquerade ::
  "'h host_api \<Rightarrow> rstring \<Rightarrow> rstring \<Rightarrow> Ipv4Addr \<Rightarrow> Ipv4Addr \<Rightarrow> ('h, NatGuard) exec" where
  "enable_masquerade H tun wan tun_ip tun_netmask =
     (let cidr = subnet_to_cidr tun_ip tun_netmask in
      bindM (\<lambda>h. (Ok (case read_ip_forward H h of Inr b \<Rightarrow> Some b | Inl e \<Rightarrow> None), h)) (\<lambda>prior.
      thenM (if prior \<noteq> Some True then set_ip_forward H True else returnM ())
     (thenM (ignoreM (iptables_run H (masquerade_args ''-D'' cidr wan)))
     (thenM (ignoreM (iptables_run H (forward_args ''-D'' tun wan)))
     (thenM (ignoreM (iptables_run H (established_args ''-D'' tun wan)))
     (thenM (iptables_run H (masquerade_args ''-A'' cidr wan))
     (thenM (iptables_run H (forward_args ''-A'' tun wan))
     (thenM (iptables_run H (established_args ''-A'' tun wan))
        (returnM \<lparr>ng_tun_iface = tun, ng_wan_iface = wan, ng_cidr = cidr, ng_prior_ip_forward = prior\<rparr>)))))))))"

definition NatGuard_drop :: "'h host_api \<Rightarrow> NatGuard \<Rightarrow> 'h \<Rightarrow> 'h" where
  "NatGuard_drop H self h =
     snd (thenM (ignoreM (iptables_run H (established_args ''-D'' (ng_tun_iface self) (ng_wan_iface self))))
         (thenM (ignoreM (iptables_run H (forward_args ''-D'' (ng_tun_iface self) (ng_wan_iface self))))
         (thenM (ignoreM (iptables_run H (masquerade_args ''-D'' (ng_cidr self) (ng_wan_iface self))))
            (case ng_prior_ip_forward self of
               Some prev \<Rightarrow> ignoreM (set_ip_forward H prev)
             | None \<Rightarrow> returnM ()))) h)"

text \<open>\<open>str::split_whitespace\<close>: the length of the white space at the front, and the loop.\<close>

definition ws_len :: "rstring \<Rightarrow> nat" where
  "ws_len s =
     (case s of
        [] \<Rightarrow> 0
      | a # r \<Rightarrow>
          if ws1 (of_char a) then 1
          else case r of
                 [] \<Rightarrow> 0
               | b # q \<Rightarrow>
                   if ws2 (of_char a) (of_char b) then 2
                   else case q of [] \<Rightarrow> 0 | c # _ \<Rightarrow> if ws3 (of_char a) (of_char b) (of_char c) then 3 else 0)"

function split_ws :: "rstring \<Rightarrow> rstring \<Rightarrow> rstring list" where
  "split_ws cur s =
     (let word = (if cur = [] then [] else [rev cur])
      in if s = [] then word
         else if ws_len s = 0 then split_ws (hd s # cur) (tl s)
         else word @ split_ws [] (drop (ws_len s) s))"
  by pat_completeness auto
termination by (relation "measure (\<lambda>(cur, s). length s)") auto

declare split_ws.simps [simp del]

definition split_whitespace :: "rstring \<Rightarrow> rstring list" where
  "split_whitespace s = split_ws [] s"

text \<open>The loop over the lines of \<open>/proc/net/route\<close> after the heading.\<close>

fun default_route_of :: "rstring list \<Rightarrow> rstring result" where
  "default_route_of [] = bail ''no default route in /proc/net/route''"
| "default_route_of (l # ls) =
     (let cols = split_whitespace l
      in if length cols < 8 then default_route_of ls
         else if cols ! 1 = ''00000000'' then Ok (cols ! 0)
         else default_route_of ls)"

definition detect_default_route_iface :: "'h host_api \<Rightarrow> 'h \<Rightarrow> rstring result" where
  "detect_default_route_iface H h =
     and_then (host_read H ''/proc/net/route'' h) (\<lambda>text. default_route_of (drop 1 (lines text)))"

section \<open>The subnet\<close>

definition prefix_mask :: "nat \<Rightarrow> u32" where
  "prefix_mask b = (if word_of_nat b = (0 :: u32) then 0 else push_bit (unat (32 - word_of_nat b :: u32)) (NOT 0))"

lemma bit_prefix_mask: "b \<le> 32 \<Longrightarrow> bit (prefix_mask b) i \<longleftrightarrow> 32 - b \<le> i \<and> i < 32"
  unfolding prefix_mask_def by (rule prefix_mask_bits)

lemma takeWhile_rev_upt:
  assumes "k \<le> n"
  shows "takeWhile (\<lambda>i. k \<le> i \<and> i < n) (rev [0..<n]) = rev [k..<n]"
proof -
  have "takeWhile (\<lambda>i. k \<le> i \<and> i < m + k) (rev [0..<k]) = []" for m
    by (cases k) simp_all
  then have "takeWhile (\<lambda>i. k \<le> i \<and> i < n) (rev [k..<n] @ rev [0..<k]) = rev [k..<n]"
    using assms by (subst takeWhile_append2) (auto dest: le_Suc_ex simp: add.commute)
  then show ?thesis using upt_add_eq_append [of 0 k "n - k"] assms by simp
qed

lemma leading_ones_prefix:
  assumes "b \<le> 32"
  shows "leading_ones (prefix_mask b) = b"
proof -
  have "bit (prefix_mask b) = (\<lambda>i. 32 - b \<le> i \<and> i < 32)"
    using bit_prefix_mask [OF assms] by (rule ext)
  then show ?thesis using takeWhile_rev_upt [of "32 - b" 32] assms by (simp add: leading_ones_def)
qed

lemma slash_not_in_ipv4: "CHR ''/'' \<notin> set (show_ipv4 a)"
proof -
  have "set (join ''.'' xs) \<subseteq> insert CHR ''.'' (\<Union> (set ` set xs))" for xs
    by (induction xs rule: induct_list012) auto
  from this [of "map (\<lambda>b. show_dec (unat b)) (to_be_bytes a)"] show ?thesis
    using slash_not_digit by (auto simp: show_ipv4_def)
qed

text \<open>The subnet handed to iptables for a netmask of \<open>b\<close> leading ones reads back, by the server's own
  CIDR parser, as the network address and that same netmask.\<close>

theorem nat_subnet_route:
  assumes "b \<le> 32"
  shows "cidr_to_route (subnet_to_cidr ip (prefix_mask b)) =
      Some (show_ipv4 (ip AND prefix_mask b), show_ipv4 (prefix_mask b)) \<and>
    (\<forall>i < 32. bit (prefix_mask b) i \<longleftrightarrow> 32 - b \<le> i)"
  using cidr_to_route_bits [OF slash_not_in_ipv4, of b "ip AND prefix_mask b", folded prefix_mask_def] assms
  by (simp add: subnet_to_cidr_def leading_ones_prefix Let_def bit_prefix_mask)

theorem nat_subnet_route_witness:
  "(24 :: nat) \<le> 32 \<and> cidr_to_route (subnet_to_cidr 0x0A080001 (prefix_mask 24)) =
     Some (show_ipv4 (0x0A080001 AND prefix_mask 24), show_ipv4 (prefix_mask 24))"
  using nat_subnet_route [of 24 "0x0A080001"] by simp

section \<open>Undoing the set-up\<close>

text \<open>A rule is the table option and the specification that follows the command.\<close>

type_synonym rule = "rstring list \<times> rstring list"

definition iptables_law :: "'h host_api \<Rightarrow> ('h \<Rightarrow> rule multiset) \<Rightarrow> bool" where
  "iptables_law H rules \<longleftrightarrow>
     (\<forall>pre spec h r h'. pre = [] \<or> pre = [''-t'', ''nat''] \<longrightarrow>
        (host_command H ''iptables'' (pre @ ''-A'' # spec) h = (r, h') \<longrightarrow>
           rules h' = (if r = Ok True then add_mset (pre, spec) (rules h) else rules h)) \<and>
        (host_command H ''iptables'' (pre @ ''-D'' # spec) h = (r, h') \<longrightarrow>
           (r = Ok True \<longleftrightarrow> (pre, spec) \<in># rules h) \<and> rules h' = rules h - {#(pre, spec)#})) \<and>
     (\<forall>path t h. rules (snd (host_write H path t h)) = rules h)"

definition file_law :: "'h host_api \<Rightarrow> bool" where
  "file_law H \<longleftrightarrow>
     (\<forall>path t h. fst (host_write H path t h) = Ok () \<and> host_read H path (snd (host_write H path t h)) = Ok t)"

definition nat_rules :: "rstring \<Rightarrow> rstring \<Rightarrow> rstring \<Rightarrow> rule multiset" where
  "nat_rules tun wan cidr =
     {# ([''-t'', ''nat''], drop 3 (masquerade_args ''-A'' cidr wan)),
        ([], drop 1 (forward_args ''-A'' tun wan)),
        ([], drop 1 (established_args ''-A'' tun wan)) #}"

lemma run_append:
  assumes "iptables_law H rules" "pre = [] \<or> pre = [''-t'', ''nat'']"
    and "iptables_run H (pre @ ''-A'' # spec) h = (Inr u, h')"
  shows "rules h' = add_mset (pre, spec) (rules h)"
proof -
  obtain r h2 where c: "host_command H ''iptables'' (pre @ ''-A'' # spec) h = (r, h2)" by (rule prod.exhaust)
  then have "r = Ok True" "h2 = h'"
    using assms(3) by (auto simp: iptables_run_def bindM_def split: sum.splits if_splits)
  with c assms(1,2) show ?thesis unfolding iptables_law_def by (metis (full_types))
qed

lemma run_delete:
  assumes "iptables_law H rules" "pre = [] \<or> pre = [''-t'', ''nat'']"
  shows "rules (snd (iptables_run H (pre @ ''-D'' # spec) h)) = rules h - {#(pre, spec)#}"
proof -
  obtain r h2 where c: "host_command H ''iptables'' (pre @ ''-D'' # spec) h = (r, h2)" by (rule prod.exhaust)
  then have "snd (iptables_run H (pre @ ''-D'' # spec) h) = h2"
    by (auto simp: iptables_run_def bindM_def split: sum.splits)
  with c assms show ?thesis unfolding iptables_law_def by (metis (full_types))
qed

lemmas run_plain = run_delete [where pre = "[]", simplified] and
  run_nat = run_delete [where pre = "[''-t'', ''nat'']", simplified]

lemma then_ignore [simp]: "thenM (ignoreM m) n h = n (snd (m h))"
  by (simp add: ignoreM_def thenM_def bindM_def)

lemma thenM_InrE:
  assumes "thenM m n h = (Inr x, h')"
  obtains u h1 where "m h = (Inr u, h1)" "n h1 = (Inr x, h')"
  using assms by (auto simp: thenM_def bindM_def split: prod.splits sum.splits)

lemma drop_rules:
  assumes "iptables_law H rules"
  shows "rules (NatGuard_drop H g h) = rules h - nat_rules (ng_tun_iface g) (ng_wan_iface g) (ng_cidr g)"
proof -
  have "rules (snd (ignoreM (set_ip_forward H b) k)) = rules k" for b k
    using assms by (simp add: ignoreM_def set_ip_forward_def iptables_law_def)
  then have "rules (NatGuard_drop H g h) =
      rules h - {#([], drop 1 (established_args ''-A'' (ng_tun_iface g) (ng_wan_iface g)))#}
              - {#([], drop 1 (forward_args ''-A'' (ng_tun_iface g) (ng_wan_iface g)))#}
              - {#([''-t'', ''nat''], drop 3 (masquerade_args ''-A'' (ng_cidr g) (ng_wan_iface g)))#}"
    by (simp add: NatGuard_drop_def established_args_def forward_args_def masquerade_args_def
        run_plain [OF assms] run_nat [OF assms] split: option.split)
  then show ?thesis by (simp add: nat_rules_def multiset_eq_iff)
qed

lemma enable_rules:
  assumes "iptables_law H rules" and "enable_masquerade H tun wan ip m h = (Inr g, h1)"
  shows "rules h1 = rules h - nat_rules tun wan (ng_cidr g) + nat_rules tun wan (ng_cidr g) \<and>
    ng_tun_iface g = tun \<and> ng_wan_iface g = wan \<and> ng_cidr g = subnet_to_cidr ip m \<and>
    ng_prior_ip_forward g = (case read_ip_forward H h of Inr b \<Rightarrow> Some b | Inl e \<Rightarrow> None)"
proof -
  let ?c = "subnet_to_cidr ip m"
  have w: "rules k' = rules k" if "set_ip_forward H b k = (r, k')" for b k k' r
    using assms(1) that unfolding set_ip_forward_def iptables_law_def by (metis snd_conv)
  obtain h0 where 0: "rules h0 = rules h"
    and r: "thenM (ignoreM (iptables_run H (masquerade_args ''-D'' ?c wan)))
     (thenM (ignoreM (iptables_run H (forward_args ''-D'' tun wan)))
     (thenM (ignoreM (iptables_run H (established_args ''-D'' tun wan)))
     (thenM (iptables_run H (masquerade_args ''-A'' ?c wan))
     (thenM (iptables_run H (forward_args ''-A'' tun wan))
     (thenM (iptables_run H (established_args ''-A'' tun wan))
        (returnM \<lparr>ng_tun_iface = tun, ng_wan_iface = wan, ng_cidr = ?c,
           ng_prior_ip_forward = (case read_ip_forward H h of Inr b \<Rightarrow> Some b | Inl e \<Rightarrow> None)\<rparr>)))))) h0 = (Inr g, h1)"
    using assms(2) unfolding enable_masquerade_def Let_def bindM_def prod.case sum.case
    by (rule thenM_InrE) (auto dest: w split: if_splits)
  define k where "k = snd (iptables_run H (established_args ''-D'' tun wan)
     (snd (iptables_run H (forward_args ''-D'' tun wan) (snd (iptables_run H (masquerade_args ''-D'' ?c wan) h0)))))"
  have "rules k = rules h - nat_rules tun wan ?c"
    by (simp add: k_def 0 established_args_def forward_args_def masquerade_args_def nat_rules_def
        run_plain [OF assms(1)] run_nat [OF assms(1)] multiset_eq_iff)
  moreover obtain k1 k2 u1 u2 u3 where
    "iptables_run H ([''-t'', ''nat''] @ ''-A'' # drop 3 (masquerade_args ''-A'' ?c wan)) k = (Inr u1, k1)"
    "iptables_run H ([] @ ''-A'' # drop 1 (forward_args ''-A'' tun wan)) k1 = (Inr u2, k2)"
    "iptables_run H ([] @ ''-A'' # drop 1 (established_args ''-A'' tun wan)) k2 = (Inr u3, h1)"
    and "g = \<lparr>ng_tun_iface = tun, ng_wan_iface = wan, ng_cidr = ?c,
       ng_prior_ip_forward = (case read_ip_forward H h of Inr b \<Rightarrow> Some b | Inl e \<Rightarrow> None)\<rparr>"
    using r by (auto simp: k_def established_args_def forward_args_def masquerade_args_def elim!: thenM_InrE)
  ultimately show ?thesis
    using run_append [OF assms(1) disjI2 [OF refl]] run_append [OF assms(1) disjI1 [OF refl]]
    by (simp add: nat_rules_def)
qed

lemma drop_forward:
  assumes "file_law H" and "ng_prior_ip_forward g = Some b"
  shows "read_ip_forward H (NatGuard_drop H g h) = Ok b"
proof -
  have t: "trim (''1'' @ [CHR 0x0A]) = ''1''" "trim (''0'' @ [CHR 0x0A]) \<noteq> ''1''" by code_simp+
  have "read_ip_forward H (snd (set_ip_forward H b k)) = Ok b" for k
    using assms(1) t by (cases b) (simp_all add: read_ip_forward_def set_ip_forward_def file_law_def)
  then show ?thesis using assms(2) by (simp add: NatGuard_drop_def) (simp add: ignoreM_def)
qed


text \<open>A host to run the set-up on: its rules and its files. \<open>broken\<close> is a command that always fails.\<close>

type_synonym example_state = "rule multiset \<times> (rstring \<rightharpoonup> rstring)"

definition example_act :: "rstring \<Rightarrow> rule \<Rightarrow> (example_state, bool) exec" where
  "example_act c rule =
     (\<lambda>(rs, fs). if c = ''-A'' then (Ok True, (add_mset rule rs, fs))
       else if c = ''-D'' \<and> rule \<in># rs then (Ok True, (rs - {#rule#}, fs)) else (Ok False, (rs, fs)))"

definition example_command :: "rstring list \<Rightarrow> rstring list \<Rightarrow> (example_state, bool) exec" where
  "example_command broken args =
     (if args = broken then (\<lambda>h. (Ok False, h))
      else if take 2 args = [''-t'', ''nat''] then example_act (hd (drop 2 args)) ([''-t'', ''nat''], drop 3 args)
      else example_act (hd args) ([], drop 1 args))"

definition example_host :: "rstring list \<Rightarrow> example_state host_api" where
  "example_host broken =
     \<lparr>host_command = (\<lambda>prog. example_command broken),
      host_read = (\<lambda>path (rs, fs). ok_or (fs path) (Bail ''no such file'' [])),
      host_write = (\<lambda>path t (rs, fs). (Ok (), (rs, fs(path \<mapsto> t))))\<rparr>"

lemma example_host_laws:
  assumes "\<And>pre spec. pre = [] \<or> pre = [''-t'', ''nat''] \<Longrightarrow> broken \<noteq> pre @ ''-D'' # spec"
  shows "iptables_law (example_host broken) fst" "file_law (example_host broken)"
  using assms
  by (force simp: iptables_law_def example_host_def example_command_def example_act_def diff_single_trivial
      split: if_splits, simp add: file_law_def example_host_def case_prod_beta ok_or_def)

lemmas example_simps = enable_masquerade_def Let_def bindM_def thenM_def ignoreM_def iptables_run_def
  set_ip_forward_def read_ip_forward_def masquerade_args_def forward_args_def established_args_def
  example_host_def example_command_def example_act_def

lemma example_trim: "trim (''0'' @ [CHR 0x0A]) = ''0''"
  by code_simp



end
