(* ===== verification/Startup.thy ===== *)
theory Startup
  imports Session_Runs Addresses6 Masquerade
begin

text \<open>
  Starting the server: the TLS configuration (\<open>build_server_config\<close> and its loaders in
  \<open>src/src/tls.rs\<close>), \<open>VpnServer::new\<close> and the set-up part of \<open>run\<close> (\<open>src/src/server.rs\<close>), and
  \<open>add_ipv6\<close> (\<open>src/src/tun_dev.rs\<close>). The certificate libraries, the sockets and the TUN device are
  parameters. The fields \<open>socket\<close>, \<open>tls_cfg\<close> and \<open>_nat_guard\<close> of \<open>VpnServer\<close> are not part of the state
  the handlers change; \<open>new\<close> returns the last two beside the state.
\<close>

section \<open>TLS configuration\<close>

record ('v, 'k) pki_api =
  pki_open :: "rstring \<Rightarrow> bytes result"
  pki_certs :: "bytes \<Rightarrow> bytes list result"
  pki_private_key :: "bytes \<Rightarrow> bytes option result"
  pki_add_root :: "bytes list \<Rightarrow> bytes \<Rightarrow> bytes list result"
  pki_client_verifier :: "bytes list \<Rightarrow> 'v result"
  pki_single_cert :: "'v \<Rightarrow> bytes list \<Rightarrow> bytes \<Rightarrow> 'k result"

definition load_certs :: "('v, 'k) pki_api \<Rightarrow> rstring \<Rightarrow> bytes list result" where
  "load_certs K path =
     and_then (pki_open K path) (\<lambda>f.
     and_then (pki_certs K f) (\<lambda>certs.
       if certs = [] then bail ''no certificates'' else Ok certs))"

definition load_private_key :: "('v, 'k) pki_api \<Rightarrow> rstring \<Rightarrow> bytes result" where
  "load_private_key K path =
     and_then (pki_open K path) (\<lambda>f.
     and_then (pki_private_key K f) (\<lambda>key. ok_or key (Bail ''no private key'' [])))"

fun add_roots :: "('v, 'k) pki_api \<Rightarrow> bytes list \<Rightarrow> bytes list \<Rightarrow> bytes list result" where
  "add_roots K roots [] = Ok roots"
| "add_roots K roots (c # cs) = and_then (pki_add_root K roots c) (\<lambda>roots. add_roots K roots cs)"

definition build_server_config :: "('v, 'k) pki_api \<Rightarrow> rstring \<Rightarrow> rstring \<Rightarrow> rstring \<Rightarrow> 'k result" where
  "build_server_config K ca cert key =
     and_then (load_certs K cert) (\<lambda>cert_chain.
     and_then (load_private_key K key) (\<lambda>private_key.
     and_then (load_certs K ca) (\<lambda>cas.
     and_then (add_roots K [] cas) (\<lambda>roots.
     and_then (pki_client_verifier K roots) (\<lambda>client_verifier.
       pki_single_cert K client_verifier cert_chain private_key)))))"

section \<open>\<open>VpnServer::new\<close>\<close>

text \<open>What \<open>tun_dev.rs\<close> sets in the configuration of the TUN crate: nothing by default.\<close>

record TunConfiguration =
  tc_tun_name :: "rstring option"
  tc_address :: "IpAddr option"
  tc_netmask :: "IpAddr option"
  tc_mtu :: "u16 option"
  tc_up :: bool

definition TunConfiguration_default :: TunConfiguration where
  "TunConfiguration_default =
     \<lparr>tc_tun_name = None, tc_address = None, tc_netmask = None, tc_mtu = None, tc_up = False\<rparr>"

text \<open>Binding the UDP and TCP sockets, reading a key file and decoding hexadecimal, and the TUN crate's
  \<open>create_as_async\<close>.\<close>

record os_api =
  os_bind_udp :: "SocketAddr \<Rightarrow> unit result"
  os_bind_tcp :: "SocketAddr \<Rightarrow> unit result"
  os_read_to_string :: "rstring \<Rightarrow> rstring option"
  os_hex_decode :: "rstring \<Rightarrow> bytes option"
  os_create_as_async :: "TunConfiguration \<Rightarrow> unit result"

definition tun_create :: "os_api \<Rightarrow> rstring \<Rightarrow> IpAddr \<Rightarrow> IpAddr \<Rightarrow> u16 \<Rightarrow> unit result" where
  "tun_create os name ip netmask mtu =
     (let config = TunConfiguration_default
        \<lparr>tc_tun_name := Some name, tc_address := Some ip, tc_netmask := Some netmask, tc_mtu := Some mtu,
         tc_up := True\<rparr> in
      and_then (os_create_as_async os config) (\<lambda>dev. Ok dev))"

definition load_envelope_keys :: "os_api \<Rightarrow> ServerConfig \<Rightarrow> (TlsCryptKey option \<times> TlsAuthKey option) result" where
  "load_envelope_keys os cfg =
     (case cfg_tls_crypt_key cfg of
        Some path \<Rightarrow>
          and_then (parse_static_key_file (os_read_to_string os) (os_hex_decode os) path) (\<lambda>km.
            Ok (Some (TlsCryptKey_from_static_key_server km), None))
      | None \<Rightarrow>
          (case cfg_tls_auth_key cfg of
             Some path \<Rightarrow>
               and_then (parse_static_key_file (os_read_to_string os) (os_hex_decode os) path) (\<lambda>km.
               and_then (TlsAuthKey_from_static_key_server km (cfg_tls_auth_key_direction cfg)) (\<lambda>key.
                 Ok (None, Some key)))
           | None \<Rightarrow> Ok (None, None)))"

definition v4_or :: "rstring \<Rightarrow> IpAddr \<Rightarrow> Ipv4Addr result" where
  "v4_or msg a = (case a of V4 v4 \<Rightarrow> Ok v4 | V6 _ \<Rightarrow> bail msg)"

definition pool_v6 :: "ServerConfig \<Rightarrow> (Ipv6Addr option \<times> Ipv6Addr option) result" where
  "pool_v6 cfg =
     (case (cfg_tun_ip6 cfg, cfg_client_pool_start_v6 cfg, cfg_client_pool_end_v6 cfg) of
        (None, _, _) \<Rightarrow> Ok (None, None)
      | (Some _, Some (V6 s), Some (V6 e)) \<Rightarrow> Ok (Some s, Some e)
      | _ \<Rightarrow> bail ''tun_ip6 is set but client_pool_start_v6 / client_pool_end_v6 is missing or non-v6'')"

definition setup_nat :: "'h host_api \<Rightarrow> ServerConfig \<Rightarrow> ('h, NatGuard option) exec" where
  "setup_nat H cfg =
     (if \<not> cfg_enable_nat cfg then returnM None
      else
        bindM (case cfg_wan_iface cfg of Some s \<Rightarrow> returnM s | None \<Rightarrow> getM (detect_default_route_iface H)) (\<lambda>wan.
        bindM (getM (\<lambda>_. v4_or ''NAT requires an IPv4 tun_ip'' (cfg_tun_ip cfg))) (\<lambda>tun_ip_v4.
        bindM (getM (\<lambda>_. v4_or ''NAT requires an IPv4 tun_netmask'' (cfg_tun_netmask cfg))) (\<lambda>tun_mask_v4.
        bindM (enable_masquerade H (cfg_tun_name cfg) wan tun_ip_v4 tun_mask_v4) (\<lambda>g. returnM (Some g))))))"

definition initial_server ::
  "ServerConfig \<Rightarrow> TlsCryptKey option \<times> TlsAuthKey option \<Rightarrow> Ipv4Addr \<Rightarrow> Ipv4Addr \<Rightarrow>
   Ipv6Addr option \<times> Ipv6Addr option \<Rightarrow> 'c VpnServer" where
  "initial_server cfg keys pool_start pool_end pool6 =
     \<lparr>v_cfg = cfg, v_store = Map.empty, v_next_ref = 0, v_sessions = Map.empty, v_routes = Map.empty,
      v_routes_v6 = Map.empty, v_peers = Map.empty, v_next_peer_id = 1, v_next_pool_ip = pool_start,
      v_pool_end = pool_end, v_next_pool_ip_v6 = fst pool6, v_pool_end_v6 = snd pool6,
      v_data_routes = Map.empty, v_tun_writer_ready = False, v_tls_crypt = fst keys, v_tls_auth = snd keys,
      v_wire = [], v_inbox = (\<lambda>_. []), v_tun = []\<rparr>"

definition VpnServer_new ::
  "os_api \<Rightarrow> ('v, 'k) pki_api \<Rightarrow> 'h host_api \<Rightarrow> ServerConfig \<Rightarrow>
   ('h, 'c VpnServer \<times> 'k \<times> NatGuard option) exec" where
  "VpnServer_new os K H cfg =
     thenM (getM (\<lambda>_. os_bind_udp os (cfg_listen cfg)))
    (bindM (getM (\<lambda>_. build_server_config K (cfg_ca cfg) (cfg_cert cfg) (cfg_key cfg))) (\<lambda>tls_cfg.
     bindM (getM (\<lambda>_. load_envelope_keys os cfg)) (\<lambda>keys.
     bindM (getM (\<lambda>_. v4_or ''client_pool_start must be IPv4'' (cfg_client_pool_start cfg))) (\<lambda>pool_start.
     bindM (getM (\<lambda>_. v4_or ''client_pool_end must be IPv4'' (cfg_client_pool_end cfg))) (\<lambda>pool_end.
     bindM (getM (\<lambda>_. pool_v6 cfg)) (\<lambda>pool6.
     bindM (setup_nat H cfg) (\<lambda>nat_guard.
       returnM (initial_server cfg keys pool_start pool_end pool6, tls_cfg, nat_guard))))))))"

section \<open>The set-up part of \<open>run\<close>\<close>

definition add_ipv6 :: "'h host_api \<Rightarrow> rstring \<Rightarrow> Ipv6Addr \<Rightarrow> u8 \<Rightarrow> ('h, unit) exec" where
  "add_ipv6 H iface addr prefix6 =
     (let cidr = show_ipv6 addr @ ''/'' @ show_dec (unat prefix6) in
      bindM (host_command H ''ip'' [''-6'', ''addr'', ''add'', cidr, ''dev'', iface]) (\<lambda>success.
        if \<not> success then failM (Bail ''ip -6 addr add failed'' []) else returnM ()))"

text \<open>Up to the receive loop; from here on the state changes only by the events of \<open>server_event\<close>.\<close>

definition run_setup :: "os_api \<Rightarrow> 'h host_api \<Rightarrow> 'c VpnServer \<Rightarrow> ('h, 'c VpnServer) exec" where
  "run_setup os H self =
     (let cfg = v_cfg self in
      thenM (getM (\<lambda>_. tun_create os (cfg_tun_name cfg) (cfg_tun_ip cfg) (cfg_tun_netmask cfg) (cfg_tun_mtu cfg)))
     (thenM (case cfg_tun_ip6 cfg of
               Some (V6 v6) \<Rightarrow> add_ipv6 H (cfg_tun_name cfg) v6 (cfg_tun_prefix6 cfg)
             | _ \<Rightarrow> returnM ())
     (let self = self\<lparr>v_tun_writer_ready := True\<rparr> in
      thenM (case cfg_listen_tcp cfg of Some a \<Rightarrow> getM (\<lambda>_. os_bind_tcp os a) | None \<Rightarrow> returnM ())
        (returnM self))))"

definition started :: "os_api \<Rightarrow> ('v, 'k) pki_api \<Rightarrow> 'h host_api \<Rightarrow> ServerConfig \<Rightarrow>
  ('h, 'c VpnServer) exec" where
  "started os K H cfg = bindM (VpnServer_new os K H cfg) (\<lambda>(server, _, _). run_setup os H server)"

text \<open>\<open>main.rs\<close>: the command line as \<open>clap\<close> parses it, the log filter (\<open>EnvFilter::new\<close> and
  \<open>EnvFilter::try_from_default_env\<close> are of the tracing crate), then loading the configuration and
  starting the server. \<open>init_logging\<close> installs the filter.\<close>

record Args =
  args_config :: rstring
  args_log :: "rstring option"

definition log_filter :: "(rstring \<Rightarrow> 'f) \<Rightarrow> 'f result \<Rightarrow> Args \<Rightarrow> 'f" where
  "log_filter EnvFilter_new from_default_env args =
     (case args_log args of
        Some l \<Rightarrow> EnvFilter_new l
      | None \<Rightarrow> (case from_default_env of Inr f \<Rightarrow> f | Inl _ \<Rightarrow> EnvFilter_new ''info''))"

definition javs_main :: "os_api \<Rightarrow> ('v, 'k) pki_api \<Rightarrow> 'h host_api \<Rightarrow> (rstring \<Rightarrow> ServerConfig result) \<Rightarrow>
  (rstring \<Rightarrow> 'f) \<Rightarrow> 'f result \<Rightarrow> ('f \<Rightarrow> 'h \<Rightarrow> 'h) \<Rightarrow> Args \<Rightarrow> ('h, 'c VpnServer) exec" where
  "javs_main os K H toml_from_str EnvFilter_new from_default_env init_logging args =
     thenM (updM (init_logging (log_filter EnvFilter_new from_default_env args)))
    (bindM (getM (\<lambda>_. ServerConfig_load (\<lambda>path. ok_or (os_read_to_string os path) (Bail ''reading config'' []))
              toml_from_str (args_config args))) (started os K H))"

section \<open>A started server satisfies the invariants\<close>

lemma bindM_InrE:
  assumes "bindM m f h = (Inr x, h')"
  obtains y h1 where "m h = (Inr y, h1)" "f y h1 = (Inr x, h')"
  using assms by (auto simp: bindM_def split: prod.splits sum.splits)

lemma started_state:
  assumes "started os K H cfg h = (Inr w, h')"
  obtains keys lo hi pool6 where
    "w = (initial_server cfg keys lo hi pool6)\<lparr>v_tun_writer_ready := True\<rparr>"
    "cfg_client_pool_start cfg = V4 lo" "cfg_client_pool_end cfg = V4 hi"
    "load_envelope_keys os cfg = Ok keys" "pool_v6 cfg = Ok pool6"
proof -
  have v4: "cfg = V4 x" if "v4_or m cfg = Ok x" for m cfg x
    using that by (simp add: v4_or_def split: IpAddr.splits)
  have run: "w = v\<lparr>v_tun_writer_ready := True\<rparr>" if "run_setup os H v k = (Inr w, k')" for v k k'
    using that unfolding run_setup_def Let_def by (elim thenM_InrE) simp
  show thesis using assms unfolding started_def VpnServer_new_def
    by (elim bindM_InrE thenM_InrE) (auto dest!: run v4 intro: that)
qed

text \<open>The pools the configuration describes: below the last address, and no static address in them.\<close>

definition pool_config_ok :: "ServerConfig \<Rightarrow> bool" where
  "pool_config_ok cfg \<longleftrightarrow>
     (\<forall>lo hi. cfg_client_pool_start cfg = V4 lo \<longrightarrow> cfg_client_pool_end cfg = V4 hi \<longrightarrow>
        hi < - 1 \<and>
        (\<forall>cn c ip. cfg_client_configs cfg cn = Some c \<longrightarrow> cc_assign_ip c = Some (V4 ip) \<longrightarrow> \<not> (lo \<le> ip \<and> ip \<le> hi))) \<and>
     cfg_client_pool_end_v6 cfg \<noteq> Some (V6 (- 1))"

lemma started_addr_inv:
  assumes "started os K H cfg h = (Inr w, h')" and "pool_config_ok cfg"
  shows "\<exists>lo. cfg_client_pool_start cfg = V4 lo \<and> addr_inv lo w"
  using assms
  by (elim started_state)
    (auto simp: addr_inv_def refs_ok_def routed_def served_def pool_ok_def holds_def initial_server_def pool_config_ok_def)

lemma pool_v6_end: "pool_v6 cfg = Ok (a, Some e) \<Longrightarrow> cfg_client_pool_end_v6 cfg = Some (V6 e)"
  by (auto simp: pool_v6_def split: option.splits IpAddr.splits)

lemma started_addr6_inv:
  assumes "started os K H cfg h = (Inr w, h')" and "pool_config_ok cfg"
  shows "addr6_inv w"
proof -
  from assms(1) obtain keys lo hi pool6 where w: "w = (initial_server cfg keys lo hi pool6)\<lparr>v_tun_writer_ready := True\<rparr>"
    and "pool_v6 cfg = Ok pool6" by (rule started_state)
  then have "snd pool6 = Some e \<Longrightarrow> e < - 1" for e
    using pool_v6_end [of cfg "fst pool6" e] assms(2)
    by (auto simp: pool_config_ok_def word_order.not_eq_extremum prod_eq_iff)
  then show ?thesis by (simp add: w addr6_inv_def refs_ok_def served_def holds_def pool6_ok_def initial_server_def)
qed

lemma started_runs:
  assumes "started os K H cfg h = (Inr w, h')"
  shows "store_ok w" "peers_ok w" "all_sessions keys_ok w"
  using assms by (elim started_state; simp add: store_ok_def peers_ok_def all_sessions_def initial_server_def)+

lemma started_all_sess_ok: "started os K H cfg h = (Inr w, h') \<Longrightarrow> all_sess_ok w"
  by (elim started_state) (simp add: all_sess_ok_def initial_server_def)

end
