(* ===== verification/Connection.thy ===== *)
theory Connection
  imports Startup
begin

text \<open>
  A client that connects: from the HARD_RESET over the key-method-2 exchange to the \<open>PUSH_REPLY\<close>
  and the established session (\<open>handle_control_packet\<close> and \<open>drive_control_plane\<close> of
  \<open>src/src/server.rs\<close>), and the same as one concrete run, which the reachability properties use as
  their example.
\<close>

declare split_paired_All [simp del] split_paired_Ex [simp del]

section \<open>The control plane establishes the session\<close>

definition writes_ok :: "'c rustls_api \<Rightarrow> bool" where
  "writes_ok T \<longleftrightarrow> (\<forall>c d. fst (conn_write_all T c d) = Ok ())"

lemma send_plaintext_ok:
  "writes_ok T \<Longrightarrow> send_plaintext T t d = (Ok (), t\<lparr>conn := snd (conn_write_all T (conn t) d)\<rparr>)"
  by (simp add: send_plaintext_def writes_ok_def case_prod_beta)

declare run_simps [simp]

lemma drained [simp]:
  "s_server_random1 (drain_plaintext n s) = s_server_random1 s"
  "s_server_random2 (drain_plaintext n s) = s_server_random2 s"
  "s_slots (drain_plaintext n s) = s_slots s" "s_active_slot_idx (drain_plaintext n s) = s_active_slot_idx s"
  "s_client_cn (drain_plaintext n s) = s_client_cn s" "s_peer_id (drain_plaintext n s) = s_peer_id s"
  "conn (s_tls (drain_plaintext n s)) = conn (s_tls s)" "s_state (drain_plaintext n s) = s_state s"
  by (simp_all add: drain_plaintext_def)

lemma run_no_v6: "v_next_pool_ip_v6 w = None \<Longrightarrow> bindM (try_server allocate_ip_v6) f (w, s) = f None (w, s)"
  by (simp add: bindM_def try_server_def allocate_ip_v6_def)

definition written :: "'c env \<Rightarrow> bytes \<Rightarrow> 'c Session \<Rightarrow> 'c Session" where
  "written E d s = s\<lparr>s_tls := (s_tls s)\<lparr>conn := snd (conn_write_all (env_rustls E) (conn (s_tls s)) d)\<rparr>\<rparr>"

lemma run_write:
  "writes_ok (env_rustls E) \<Longrightarrow> thenM (sess_send_plaintext E d) m (w, s) = m (w, written E d s)"
  unfolding sess_send_plaintext_def by (rule run_try) (simp add: send_plaintext_ok written_def)

lemma install_prf_slot_ok:
  assumes "s_client_pre_master s = Some pm" "s_client_random1 s = Some r1" "s_client_random2 s = Some r2" "slots_ok s"
  shows "\<exists>sl i. install_prf_slot A k s = (Ok (), s\<lparr>s_slots := sl, s_active_slot_idx := i\<rparr>) \<and>
    length sl = 2 \<and> i < 2 \<and> sl ! i \<noteq> None \<and>
    (active_slot s = None \<longrightarrow> (\<exists>kd. sl = (s_slots s)[0 := Some (new_slot k kd)]))"
proof -
  obtain kd where "derive_openvpn_key_data A pm r1 (s_server_random1 s) r2 (s_server_random2 s)
      (to_be_bytes (s_client_session_id s)) (to_be_bytes (s_server_session_id s)) = Some kd" "length kd = 256"
    by (rule derive_total)
  then have inst: "install_prf_slot A k s = (Ok (), if active_slot s = None
      then (set_slot 0 (new_slot k kd) s)\<lparr>s_active_slot_idx := 0\<rparr> else install_slot (new_slot k kd) s)"
    using assms(1-3) by (simp add: install_prf_slot_def Let_def)
  show ?thesis
  proof (cases "active_slot s")
    case None
    then show ?thesis unfolding inst using assms(4)
      by (intro exI [of _ "(s_slots s)[0 := Some (new_slot k kd)]"] exI [of _ 0]) (auto simp: set_slot_def slots_ok_def)
  next
    case (Some x)
    let ?j = "1 - s_active_slot_idx s"
    have "s\<lparr>s_slots := u\<rparr> = s\<lparr>s_slots := u, s_active_slot_idx := s_active_slot_idx s\<rparr>" for u by (cases s) simp
    then show ?thesis unfolding inst using assms(4) Some
      by (intro exI [of _ "(s_slots s)[?j := Some (new_slot k kd)]"] exI [of _ "s_active_slot_idx s"])
        (auto simp: install_slot_def set_slot_def slots_ok_def active_slot_def nth_list_update)
  qed
qed

lemma drive_step_key_exchange:
  assumes "writes_ok (env_rustls E)" "s_state s = KeyExchange" "km_ok km" "slots_ok s"
    and "plaintext_in (s_tls s) = ClientKeyMethod2_encode km @ rest"
  obtains s' where "drive_step E addr (w, s) = (Ok True, (w, s'))" "s_state s' = PushPending"
    "plaintext_in (s_tls s') = rest" "active_slot s' \<noteq> None" "slots_ok s'"
    "conn (s_tls s') = snd (conn_write_all (env_rustls E) (conn (s_tls s))
        (server_km2_reply (v_cfg w) (s_server_random1 s) (s_server_random2 s)))"
    "s_client_cn s' = s_client_cn s" "s_peer_id s' = s_peer_id s"
    "active_slot s = None \<Longrightarrow> \<exists>kd. s_slots s' = (s_slots s)[0 := Some (new_slot 0 kd)]"
proof -
  let ?n = "length (ClientKeyMethod2_encode km)"
  let ?s = "(drain_plaintext ?n s)
     \<lparr>s_client_pre_master := Some (km_pre_master km), s_client_random1 := Some (km_random1 km),
      s_client_random2 := Some (km_random2 km), s_client_options := Some (km_options km),
      s_client_peer_info := Some (km_peer_info km)\<rparr>"
  have "slots_ok ?s" using assms(4) by (simp add: slots_ok_def)
  then obtain sl i where inst: "install_prf_slot (env_crypto E) 0 ?s = (Ok (), ?s\<lparr>s_slots := sl, s_active_slot_idx := i\<rparr>)"
    and sl: "length sl = 2" "i < 2" "sl ! i \<noteq> None"
      "active_slot ?s = None \<longrightarrow> (\<exists>kd. sl = (s_slots ?s)[0 := Some (new_slot 0 kd)])"
    using install_prf_slot_ok [of ?s "km_pre_master km" "km_random1 km" "km_random2 km" "env_crypto E" 0] by auto
  note pop = km2.enc_parse [OF assms(3), of rest, folded assms(5)]
  let ?s4 = "(written E (server_km2_reply (v_cfg w) (s_server_random1 s) (s_server_random2 s))
     (?s\<lparr>s_slots := sl, s_active_slot_idx := i\<rparr>))\<lparr>s_state := PushPending\<rparr>"
  have "drive_step E addr (w, s) = (Ok True, (w, ?s4))"
    using assms(2) pop
    by (simp add: drive_step_def drive_key_exchange_def bindM_def run_try [where f = "install_prf_slot (env_crypto E) 0", OF inst]
        run_write [OF assms(1)])
  then show thesis
    by (rule that) (use sl assms(5) in \<open>simp_all add: written_def active_slot_def slots_ok_def\<close>)
qed

lemma push_request_ascii: "ascii_ok ''PUSH_REQUEST''"
  by (simp add: ascii_ok_def ascii_valid)

text \<open>The server after it gave the next pool address to the client at \<open>addr\<close>.\<close>

definition leased :: "SocketAddr \<Rightarrow> 'c VpnServer \<Rightarrow> 'c VpnServer" where
  "leased addr w = w\<lparr>v_next_pool_ip := v_next_pool_ip w + 1, v_routes := (v_routes w)(v_next_pool_ip w \<mapsto> addr)\<rparr>"

lemma drive_step_push:
  assumes "writes_ok (env_rustls E)" "s_state s = PushPending" "client_config w s = None"
    and "v_next_pool_ip w \<le> v_pool_end w" "v_next_pool_ip_v6 w = None"
    and "plaintext_in (s_tls s) = ascii_encode ''PUSH_REQUEST'' @ rest"
  shows "drive_step E addr (w, s) = (Ok True, (leased addr w,
    (written E (build_push_reply (v_cfg w) (v_next_pool_ip w) None (s_peer_id s) [])
      ((drain_plaintext (length (ascii_encode ''PUSH_REQUEST'')) s)
        \<lparr>s_assigned_ip := Some (V4 (v_next_pool_ip w))\<rparr>))\<lparr>s_state := Established\<rparr>))"
proof -
  let ?n = "length (ascii_encode ''PUSH_REQUEST'')"
  have pop: "try_pop_ascii (plaintext_in (s_tls s)) = Ready ''PUSH_REQUEST'' ?n"
    using msgs.enc_parse [OF push_request_ascii, of rest] assms(6) by simp
  have cc: "client_config w (drain_plaintext ?n s) = None"
    "client_config (leased addr w) ((drain_plaintext ?n s)\<lparr>s_assigned_ip := ip\<rparr>) = None" for ip
    using assms(3) by (simp_all add: client_config_def leased_def split: option.splits)
  have "choose_ip (w, drain_plaintext ?n s) =
      (Ok (v_next_pool_ip w), (w\<lparr>v_next_pool_ip := v_next_pool_ip w + 1\<rparr>, drain_plaintext ?n s))"
    using cc assms(4) by (simp add: choose_ip_def try_server_def allocate_ip_def Let_def linorder_not_less)
  then have "push_request E addr (w, drain_plaintext ?n s) = (Ok (), (leased addr w,
    (written E (build_push_reply (v_cfg w) (v_next_pool_ip w) None (s_peer_id s) [])
      ((drain_plaintext ?n s)\<lparr>s_assigned_ip := Some (V4 (v_next_pool_ip w))\<rparr>))\<lparr>s_state := Established\<rparr>))"
    using cc(2) assms(5)
    by (simp add: push_request_def bindM_Ok push_reply_to_def run_no_v6 run_write [OF assms(1)] leased_def)
  then show ?thesis
    using assms(2) pop by (simp add: drive_step_def drive_push_pending_def thenM_Ok)
qed

lemma drive_step_idle:
  "s_state s = Established \<Longrightarrow> plaintext_in (s_tls s) = [] \<Longrightarrow> drive_step E addr (w, s) = (Ok False, (w, s))"
  by (simp add: drive_step_def drive_established_def try_pop_ascii_def)

lemma drive_establishes:
  assumes "writes_ok (env_rustls E)" "s_state s = KeyExchange" "km_ok km" "slots_ok s"
    and "plaintext_in (s_tls s) = ClientKeyMethod2_encode km @ ascii_encode ''PUSH_REQUEST''"
    and "client_config w s = None" "v_next_pool_ip w \<le> v_pool_end w" "v_next_pool_ip_v6 w = None"
  shows "\<exists>s'. drive_control_plane E addr (w, s) = (Ok (), (leased addr w, s')) \<and>
    (active_slot s = None \<longrightarrow> (\<exists>kd. s_slots s' = (s_slots s)[0 := Some (new_slot 0 kd)])) \<and>
    s_state s' = Established \<and> s_assigned_ip s' = Some (V4 (v_next_pool_ip w)) \<and> active_slot s' \<noteq> None \<and>
    plaintext_in (s_tls s') = [] \<and>
    conn (s_tls s') = snd (conn_write_all (env_rustls E) (snd (conn_write_all (env_rustls E) (conn (s_tls s))
        (server_km2_reply (v_cfg w) (s_server_random1 s) (s_server_random2 s))))
        (build_push_reply (v_cfg w) (v_next_pool_ip w) None (s_peer_id s) []))"
proof -
  obtain s1 where 1: "drive_step E addr (w, s) = (Ok True, (w, s1))" "s_state s1 = PushPending"
    "plaintext_in (s_tls s1) = ascii_encode ''PUSH_REQUEST''" "active_slot s1 \<noteq> None" "slots_ok s1"
    "conn (s_tls s1) = snd (conn_write_all (env_rustls E) (conn (s_tls s))
        (server_km2_reply (v_cfg w) (s_server_random1 s) (s_server_random2 s)))"
    "s_client_cn s1 = s_client_cn s" "s_peer_id s1 = s_peer_id s"
    "active_slot s = None \<longrightarrow> (\<exists>kd. s_slots s1 = (s_slots s)[0 := Some (new_slot 0 kd)])"
    using drive_step_key_exchange [OF assms(1-5)] by blast
  let ?s2 = "(written E (build_push_reply (v_cfg w) (v_next_pool_ip w) None (s_peer_id s) [])
      ((drain_plaintext (length (ascii_encode ''PUSH_REQUEST'')) s1)
        \<lparr>s_assigned_ip := Some (V4 (v_next_pool_ip w))\<rparr>))\<lparr>s_state := Established\<rparr>"
  have cc: "client_config w s1 = None" using assms(6) 1(7) by (simp add: client_config_def)
  have 2: "drive_step E addr (w, s1) = (Ok True, (leased addr w, ?s2))"
    using drive_step_push [OF assms(1) 1(2) cc assms(7,8), of "[]"] 1(3,8) by simp
  have 3: "drive_step E addr (leased addr w, ?s2) = (Ok False, (leased addr w, ?s2))"
    by (rule drive_step_idle) (simp_all add: written_def 1(3))
  have "drive_control_plane E addr (w, s) = (Ok (), (leased addr w, ?s2))"
    by (subst drive_control_plane.simps, simp only: 1(1) prod.case sum.case if_True,
        subst drive_control_plane.simps, simp only: 2 prod.case sum.case if_True,
        subst drive_control_plane.simps, simp only: 3 prod.case sum.case if_False)
  then show ?thesis using 1 by (intro exI [of _ ?s2]) (simp add: written_def active_slot_def)
qed

section \<open>A concrete run\<close>

text \<open>A connection that passes bytes through unchanged, and an environment around it.\<close>

definition clear_tls :: "bytes rustls_api" where
  "clear_tls =
     \<lparr>conn_read_tls = (\<lambda>c data. (Ok (length data), c @ data)),
      conn_process_new_packets = (\<lambda>c. (Ok (), c)),
      conn_reader_read = (\<lambda>c n. (Ok (take n c), drop n c)),
      conn_write_tls = (\<lambda>c. ([], c)),
      conn_is_handshaking = (\<lambda>c. False),
      conn_write_all = (\<lambda>c data. (Ok (), c)),
      conn_peer_leaf = (\<lambda>c. None),
      x509_common_names = (\<lambda>der. Ok [])\<rparr>"

definition example_env :: "bytes env" where
  "example_env =
     \<lparr>env_crypto = example_api, env_rustls = clear_tls, env_now = 0, env_unix = Some 0, env_new_conn = Ok [],
      env_sid_bytes = replicate 8 1, env_r1 = replicate 32 2, env_r2 = replicate 32 3,
      env_send = (\<lambda>_. True), env_tun_open = True\<rparr>"

definition example_addr :: SocketAddr where
  "example_addr = (V4 0xC0A80001, 40000)"

definition example_start :: "bytes VpnServer" where
  "example_start =
     (initial_server example_config (None, None) 0x0A080002 0x0A0800FE (None, None))\<lparr>v_tun_writer_ready := True\<rparr>"

definition example_reset :: ControlPacket where
  "example_reset =
     \<lparr>cp_op = ControlHardResetClientV2, cp_key_id = 0, cp_session_id = 7, cp_acks = [],
      cp_remote_session_id = None, cp_packet_id = Some 0, cp_payload = []\<rparr>"

definition example_request :: ControlPacket where
  "example_request =
     \<lparr>cp_op = ControlV1, cp_key_id = 0, cp_session_id = 7, cp_acks = [],
      cp_remote_session_id = None, cp_packet_id = Some 1,
      cp_payload = ClientKeyMethod2_encode sample_km @ ascii_encode ''PUSH_REQUEST''\<rparr>"

definition example_accepted :: "bytes VpnServer" where
  "example_accepted =
     receive_packet example_env example_addr (Udp example_addr) (ControlPacket_encode example_reset) example_start"

definition example_connected :: "bytes VpnServer" where
  "example_connected =
     receive_packet example_env example_addr (Udp example_addr) (ControlPacket_encode example_request) example_accepted"

lemma clear_writes_ok: "writes_ok clear_tls"
  by (simp add: writes_ok_def clear_tls_def)

lemma clear_feed:
  assumes "d \<noteq> []" "length d \<le> 4096"
  shows "TlsSession_feed clear_tls \<lparr>conn = [], plaintext_in = []\<rparr> d = (Ok (), \<lparr>conn = [], plaintext_in = d\<rparr>)"
proof -
  have "feed_loop clear_tls [] d = (Ok (), d)"
    using assms(1) by (subst feed_loop.simps) (simp add: clear_tls_def feed_loop.simps)
  moreover have "drain_loop clear_tls d [] = Some (d, [])"
    using assms
    by (subst drain_loop.simps, simp add: clear_tls_def, subst drain_loop.simps) (simp add: clear_tls_def)
  ultimately show ?thesis by (simp add: TlsSession_feed_def)
qed

lemma receive_control:
  assumes "wf_control p" "is_control (cp_op p)" "v_tls_crypt w = None" "v_tls_auth w = None"
  shows "receive_packet E addr tr (ControlPacket_encode p) w =
    snd (handle_control_packet E addr (ControlPacket_encode p) None tr w)"
proof -
  have "ControlPacket_encode p ! 0 = op_byte (cp_op p) (cp_key_id p)" "ControlPacket_encode p \<noteq> []"
    by (simp_all add: ControlPacket_encode_def)
  moreover have "OpCode_from_u8 (drop_bit 3 (op_byte (cp_op p) (cp_key_id p))) = Ok (cp_op p)"
    by (simp only: op_byte_op OpCode_from_as)
  moreover have "\<not> is_data (cp_op p)" using assms(2) by (auto simp: is_control_def is_data_def)
  ultimately show ?thesis using assms(3,4) by (simp add: receive_packet_def unwrap_control_def)
qed

lemma wf_example: "wf_control example_reset" "wf_control example_request"
  by (simp_all add: wf_control_def example_reset_def example_request_def is_control_def)

lemma example_accepted_session:
  obtains s where "v_sessions example_accepted = [example_addr \<mapsto> 0]" "v_store example_accepted 0 = Some s"
    "s_state s = Handshaking" "s_tls s = \<lparr>conn = [], plaintext_in = []\<rparr>" "slots_ok s" "s_rekey s = None"
    "v_tls_crypt example_accepted = None" "v_tls_auth example_accepted = None"
    "v_next_pool_ip example_accepted = 0x0A080002" "v_pool_end example_accepted = 0x0A0800FE"
    "v_next_pool_ip_v6 example_accepted = None" "s_client_cn s = None" "s_last_seen s = 0"
    "v_cfg example_accepted = example_config" "s_slots s = [None, None]" "s_active_slot_idx s = 0"
    "v_data_routes example_accepted = [1 \<mapsto> 0]" "v_inbox example_accepted = (\<lambda>_. [])"
proof -
  have p: "ControlPacket_parse (ControlPacket_encode example_reset) = Ok example_reset"
    using parse_encode [OF wf_example(1)] .
  have "is_hard_reset (cp_op example_reset)" "is_control (cp_op example_reset)"
    by (simp_all add: is_hard_reset_def is_control_def example_reset_def)
  moreover have "v_tls_crypt example_start = None" "v_tls_auth example_start = None" "v_sessions example_start = Map.empty"
    by (simp_all add: example_start_def initial_server_def)
  ultimately have e: "example_accepted =
      snd (new_session example_env example_addr example_reset None (Udp example_addr) example_start)"
    unfolding example_accepted_def
    by (subst receive_control [OF wf_example(1)]) (simp_all add: handle_control_packet_def p)
  show thesis
    by (rule that)
      (simp_all add: e new_session_def TlsSession_new_def example_env_def accepted_session_def Session_new_def
        make_hard_reset_reply_def alloc_packet_id_def send_and_track_def bindM_def thenM_def wrap_for_wire_def
        try_sess_def send_sess_def try_server_def Transport_send_def example_start_def initial_server_def
        on_sess_def record_sent_def register_session_def spawn_data_worker_def Let_def example_reset_def slots_ok_def,
        simp_all)
qed

lemma request_payload: "cp_payload example_request \<noteq> []" "length (cp_payload example_request) \<le> 4096"
  by (simp_all add: example_request_def sample_km_def ClientKeyMethod2_encode_def write_lp_string_def Let_def
      ascii_encode_def)

lemma clear_flush:
  assumes "env_rustls E = clear_tls" "v_tls_crypt w = None" "v_tls_auth w = None"
  shows "\<exists>x w' s'. flush_outgoing E (w, s) = (x, w', s') \<and> s_state s' = s_state s \<and>
    s_assigned_ip s' = s_assigned_ip s \<and> v_sessions w' = v_sessions w \<and> s_slots s' = s_slots s \<and>
    v_data_routes w' = v_data_routes w \<and> v_inbox w' = v_inbox w"
  using assms
  by (cases "s_pending_acks s = []")
    (simp_all add: flush_outgoing_def sess_take_outgoing_def call_sess_def take_outgoing_def clear_tls_def
      bindM_def try_sess_def wrap_for_wire_def send_sess_def try_server_def Transport_send_def Let_def)

lemma example_connected_session:
  obtains s where "v_sessions example_connected example_addr = Some 0" "v_store example_connected 0 = Some s"
    "s_state s = Established" "s_assigned_ip s = Some (V4 0x0A080002)"
    "\<exists>kd. s_slots s = [Some (new_slot 0 kd), None]" "v_data_routes example_connected = [1 \<mapsto> 0]"
    "v_inbox example_connected = (\<lambda>_. [])"
proof -
  obtain s where a: "v_sessions example_accepted = [example_addr \<mapsto> 0]" "v_store example_accepted 0 = Some s"
    "s_state s = Handshaking" "s_tls s = \<lparr>conn = [], plaintext_in = []\<rparr>" "slots_ok s" "s_rekey s = None"
    "v_tls_crypt example_accepted = None" "v_tls_auth example_accepted = None"
    "v_next_pool_ip example_accepted = 0x0A080002" "v_pool_end example_accepted = 0x0A0800FE"
    "v_next_pool_ip_v6 example_accepted = None" "s_client_cn s = None" "s_last_seen s = 0"
    "v_cfg example_accepted = example_config" "s_slots s = [None, None]" "s_active_slot_idx s = 0"
    "v_data_routes example_accepted = [1 \<mapsto> 0]" "v_inbox example_accepted = (\<lambda>_. [])"
    by (rule example_accepted_session)
  let ?E = example_env and ?w = example_accepted
  define s1 where "s1 = note_received 1 0 (s\<lparr>s_last_seen := 0\<rparr>)"
  define s2 where "s2 = s1\<lparr>s_tls := \<lparr>conn = [], plaintext_in = cp_payload example_request\<rparr>, s_state := KeyExchange\<rparr>"
  have s2: "s_state s2 = KeyExchange" "slots_ok s2" "client_config ?w s2 = None"
    "plaintext_in (s_tls s2) = ClientKeyMethod2_encode sample_km @ ascii_encode ''PUSH_REQUEST''"
    using a(5,12) by (simp_all add: s2_def s1_def note_received_def slots_ok_def client_config_def example_request_def Let_def)
  have slots: "s_slots s2 = [None, None]" "s_active_slot_idx s2 = 0"
    using a(15,16) by (simp_all add: s2_def s1_def note_received_def Let_def)
  have T: "env_rustls ?E = clear_tls" by (simp add: example_env_def)
  obtain s3 where s3: "drive_control_plane ?E example_addr (?w, s2) = (Ok (), (leased example_addr ?w, s3))"
    "s_state s3 = Established" "s_assigned_ip s3 = Some (V4 0x0A080002)"
    "\<exists>kd. s_slots s3 = [Some (new_slot 0 kd), None]"
    using drive_establishes [OF _ s2(1) sample_km_ok s2(2,4,3), of ?E example_addr] clear_writes_ok a(9-11) slots
    by (auto simp: T active_slot_def)
  have tls: "s_tls s1 = \<lparr>conn = [], plaintext_in = []\<rparr>" "s_state s1 = Handshaking" "s_rekey s1 = None"
    using a(3,4,6) by (simp_all add: s1_def note_received_def Let_def)
  have feed: "thenM (sess_feed ?E (cp_payload example_request)) m (?w, s1) =
      m (?w, s1\<lparr>s_tls := \<lparr>conn = [], plaintext_in = cp_payload example_request\<rparr>\<rparr>)" for m
    unfolding sess_feed_def by (rule run_try) (simp add: T tls(1) clear_feed [OF request_payload])
  have "handle_control_v1 ?E example_addr example_request (?w, s1) = flush_outgoing ?E (leased example_addr ?w, s3)"
    using tls s3(1)
    by (simp add: handle_control_v1_def feed T is_handshaking_def finalize_keys_def thenM_Ok clear_tls_def s2_def)
  then have run: "handle_session_packet ?E example_addr example_request None (?w, s) =
      flush_outgoing ?E (leased example_addr ?w, s3)"
    by (simp add: handle_session_packet_def s1_def example_request_def example_env_def)
  obtain x w4 s4 where flush: "flush_outgoing ?E (leased example_addr ?w, s3) = (x, w4, s4)"
    and f: "s_state s4 = s_state s3" "s_assigned_ip s4 = s_assigned_ip s3" "v_sessions w4 = v_sessions ?w"
      "s_slots s4 = s_slots s3" "v_data_routes w4 = v_data_routes ?w" "v_inbox w4 = v_inbox ?w"
    using clear_flush [OF T, of "leased example_addr ?w" s3] a(7,8) by (auto simp: leased_def)
  have "ControlPacket_parse (ControlPacket_encode example_request) = Ok example_request"
    "\<not> is_hard_reset (cp_op example_request)" "is_control (cp_op example_request)"
    using parse_encode [OF wf_example(2)] by (simp_all add: is_hard_reset_def is_control_def example_request_def)
  then have e: "example_connected = w4\<lparr>v_store := (v_store w4)(0 \<mapsto> s4)\<rparr>"
    unfolding example_connected_def using a(1,2,7,8) run flush
    by (subst receive_control [OF wf_example(2)]) (simp_all add: handle_control_packet_def lock_def)
  show thesis by (rule that [of s4]) (simp_all add: e f s3(2-4) a(1,17,18))
qed

text \<open>Starting that server: sockets and files that work, and a host without NAT.\<close>

definition example_os :: os_api where
  "example_os =
     \<lparr>os_bind_udp = (\<lambda>_. Ok ()), os_bind_tcp = (\<lambda>_. Ok ()), os_read_to_string = (\<lambda>_. None),
      os_hex_decode = (\<lambda>_. None), os_create_as_async = (\<lambda>_. Ok ())\<rparr>"

definition example_pki :: "(unit, unit) pki_api" where
  "example_pki =
     \<lparr>pki_open = (\<lambda>_. Ok [1]), pki_certs = (\<lambda>f. Ok [f]), pki_private_key = (\<lambda>f. Ok (Some f)),
      pki_add_root = (\<lambda>roots c. Ok (roots @ [c])), pki_client_verifier = (\<lambda>_. Ok ()),
      pki_single_cert = (\<lambda>_ _ _. Ok ())\<rparr>"

lemma example_started:
  "started example_os example_pki (example_host []) example_config h = (Inr example_start, h)"
  by (simp add: started_def VpnServer_new_def run_setup_def bindM_def thenM_def example_os_def example_pki_def
      tun_create_def build_server_config_def load_certs_def load_private_key_def load_envelope_keys_def v4_or_def pool_v6_def
      setup_nat_def example_config_def example_start_def initial_server_def Let_def)

lemma example_pool_ok: "pool_config_ok example_config"
  by (simp add: pool_config_ok_def example_config_def)

lemma example_reaches_accepted: "reaches example_start example_accepted"
  using reaches.step [OF reaches.start, of example_start example_env
      "Receive example_addr (Udp example_addr) (ControlPacket_encode example_reset)"]
  by (simp add: example_accepted_def)

lemma example_reaches: "reaches example_start example_connected"
  using reaches.step [OF example_reaches_accepted, of example_env
      "Receive example_addr (Udp example_addr) (ControlPacket_encode example_request)"]
  by (simp add: example_connected_def)

text \<open>C7: a client whose handshake is done and that has sent its key-method-2 record and its
  \<open>PUSH_REQUEST\<close> is established: the control plane returns without error with the session
  established, keyed, and holding the next address of the pool, routed to the client; the key-method-2
  reply and then the \<open>PUSH_REPLY\<close> with that address were written to the TLS connection, and nothing is
  left in the buffer. Assumed: the writes to the TLS buffer succeed, the pool is not exhausted, there is no
  IPv6 pool and no per-client configuration.\<close>

theorem client_gets_established:
  assumes "writes_ok (env_rustls E)" and "s_state s = KeyExchange" and "km_ok km" and "slots_ok s"
    and "plaintext_in (s_tls s) = ClientKeyMethod2_encode km @ ascii_encode ''PUSH_REQUEST''"
    and "client_config w s = None" and "v_next_pool_ip w \<le> v_pool_end w" and "v_next_pool_ip_v6 w = None"
  shows "\<exists>w' s'. drive_control_plane E addr (w, s) = (Ok (), (w', s')) \<and>
    s_state s' = Established \<and> s_assigned_ip s' = Some (V4 (v_next_pool_ip w)) \<and> active_slot s' \<noteq> None \<and>
    v_routes w' = (v_routes w)(v_next_pool_ip w \<mapsto> addr) \<and> v_next_pool_ip w' = v_next_pool_ip w + 1 \<and>
    plaintext_in (s_tls s') = [] \<and>
    conn (s_tls s') = snd (conn_write_all (env_rustls E) (snd (conn_write_all (env_rustls E) (conn (s_tls s))
        (server_km2_reply (v_cfg w) (s_server_random1 s) (s_server_random2 s))))
        (build_push_reply (v_cfg w) (v_next_pool_ip w) None (s_peer_id s) []))"
proof -
  from drive_establishes [OF assms] obtain s' where
    "drive_control_plane E addr (w, s) = (Ok (), (leased addr w, s'))" and s': "s_state s' = Established"
    "s_assigned_ip s' = Some (V4 (v_next_pool_ip w))" "active_slot s' \<noteq> None" "plaintext_in (s_tls s') = []"
    "conn (s_tls s') = snd (conn_write_all (env_rustls E) (snd (conn_write_all (env_rustls E) (conn (s_tls s))
        (server_km2_reply (v_cfg w) (s_server_random1 s) (s_server_random2 s))))
        (build_push_reply (v_cfg w) (v_next_pool_ip w) None (s_peer_id s) []))"
    by blast
  moreover have "v_routes (leased addr w) = (v_routes w)(v_next_pool_ip w \<mapsto> addr)"
    "v_next_pool_ip (leased addr w) = v_next_pool_ip w + 1"
    by (simp_all add: leased_def)
  ultimately show ?thesis by blast
qed

definition waiting_session :: "bytes Session" where
  "waiting_session =
     (Session_new 11 \<lparr>conn = [], plaintext_in = ClientKeyMethod2_encode sample_km @ ascii_encode ''PUSH_REQUEST''\<rparr>
        1 (Udp example_addr) (replicate 32 1) (replicate 32 2) 0)\<lparr>s_state := KeyExchange\<rparr>"

theorem client_gets_established_witness:
  "writes_ok (env_rustls example_env) \<and> km_ok sample_km \<and> slots_ok waiting_session \<and>
   (\<exists>w' s'. drive_control_plane example_env example_addr (example_start, waiting_session) = (Ok (), (w', s')) \<and>
      s_state s' = Established \<and> s_assigned_ip s' = Some (V4 0x0A080002) \<and>
      v_routes w' 0x0A080002 = Some example_addr)"
proof -
  have h: "writes_ok (env_rustls example_env)" "s_state waiting_session = KeyExchange" "slots_ok waiting_session"
    "plaintext_in (s_tls waiting_session) = ClientKeyMethod2_encode sample_km @ ascii_encode ''PUSH_REQUEST''"
    "client_config example_start waiting_session = None"
    "v_next_pool_ip example_start \<le> v_pool_end example_start" "v_next_pool_ip_v6 example_start = None"
    using clear_writes_ok
    by (simp_all add: example_env_def waiting_session_def Session_new_def slots_ok_def client_config_def
        example_start_def initial_server_def)
  have "v_next_pool_ip example_start = 0x0A080002" by (simp add: example_start_def initial_server_def)
  then show ?thesis
    using h(1,3) sample_km_ok client_gets_established [OF h(1,2) sample_km_ok h(3-7), of example_addr]
    by (metis fun_upd_same)
qed

end
