(* ===== verification/Server_Props.thy ===== *)
theory Server_Props
  imports Connection
begin

text \<open>
  Properties of the running server: what holds in every state reachable from a started server
  (\<open>started\<close>, then any events in any order with any environments), and what the single handlers do.
\<close>

declare split_paired_All [simp del] split_paired_Ex [simp del]

section \<open>Addresses\<close>

lemma reachable_addr_inv:
  assumes "started os K H cfg h = (Inr w0, h')" "pool_config_ok cfg" "reaches w0 w"
  shows "\<exists>lo. addr_inv lo w"
  using started_addr_inv [OF assms(1,2)] addresses.reachable [OF assms(3)] by blast

lemma reachable_sess_ok:
  "started os K H cfg h = (Inr w0, h') \<Longrightarrow> reaches w0 w \<Longrightarrow> all_sess_ok w"
  by (erule sessions.reachable [OF _ started_all_sess_ok, rotated])

lemma reachable_routed:
  assumes "started os K H cfg h = (Inr w0, h')" "pool_config_ok cfg" "reaches w0 w"
  shows "routed w"
  using reachable_addr_inv [OF assms] unfolding addr_inv_def by blast

lemma reachable_addr6_inv:
  assumes "started os K H cfg h = (Inr w0, h')" "pool_config_ok cfg" "reaches w0 w"
  shows "served s_assigned_ip_v6 (v_routes_v6 w) w"
  using addresses6.reachable [OF assms(3) started_addr6_inv [OF assms(1,2)]] by (simp add: addr6_inv_def)

lemma served_exclusive: "served A rt w \<Longrightarrow> (holds A w a = Some i \<longrightarrow> rt i = Some a) \<and>
    (holds A w a = Some i \<longrightarrow> holds A w b = Some i \<longrightarrow> a = b)"
  unfolding served_def by (metis option.inject)





section \<open>Identity of the data channel\<close>

lemma masked_small: "(p :: u32) AND 0x00FFFFFF = p \<Longrightarrow> p < 2 ^ 24"
  using word_and_le1 [of p "0x00FFFFFF"] by (simp add: and.commute word_le_nat_alt word_less_nat_alt)

text \<open>C11: over every run of a started server a session keeps its identity. Each data packet it builds in a
  reachable state parses as \<open>P_DATA_V2\<close> with the session's own peer id and the key id and packet id of its
  active slot, and the client's mirrored keys open it to the tunnelled packet; the only peer id whose
  inbound data is routed to the session is its own; and in whatever state the server reaches from there
  the session has the same peer id, transport and session ids. Assumed: the AEAD decrypts what it encrypted.\<close>

theorem data_channel_identity:
  assumes "started os K H cfg h = (Inr w0, h')" and "reaches w0 w" and "v_store w r = Some s"
    and "aead_law A" and "active_slot s = Some slot" and "build_data_packet A pt s = (Ok pkt, s')"
  shows "(\<exists>ct. DataPacketV2_parse pkt =
      Ok \<lparr>dp_key_id = ks_key_id slot, dp_peer_id = s_peer_id s, dp_packet_id = ks_data_pid_out slot, dp_ciphertext = ct\<rparr> \<and>
      DataCipher_open A (DataCipher_mirror (ks_cipher slot)) (ks_data_pid_out slot) (take 8 pkt) ct = Ok pt) \<and>
    (v_data_routes w p = Some r \<longrightarrow> p = s_peer_id s) \<and>
    (reaches w w' \<longrightarrow> (\<exists>s2. v_store w' r = Some s2 \<and> identity s2 = identity s))"
proof -
  note inv = started_runs [OF assms(1)]
  have "store_ok w \<and> peers_ok w" using peers.reachable [OF assms(2)] inv by blast
  moreover have "keys_ok s" using keys.invariant.reachable [OF assms(2) inv(3)] assms(3) by (simp add: all_sessions_def)
  moreover have "slots_ok s" using reachable_sess_ok [OF assms(1,2)] assms(3) by (simp add: all_sess_ok_def sess_inv_def)
  ultimately have i: "store_ok w" "peers_ok w" "keys_ok s" "slots_ok s" by blast+
  have "slot_ok slot" using keys_ok_nth [OF i(3), of "s_active_slot_idx s" slot] i(4) assms(5) by (simp add: slots_ok_def active_slot_def)
  then have "ks_key_id slot AND 7 = ks_key_id slot" "s_peer_id s < 2 ^ 24"
    using i(3) masked_small by (simp_all add: slot_ok_def keys_ok_def)
  note built = built_data_readable [OF assms(4,5) this assms(6)]
  have "p = s_peer_id s" if "v_data_routes w p = Some r"
    using i(2) assms(3) that unfolding peers_ok_def by (metis option.inject)
  moreover have "\<exists>s2. v_store w' r = Some s2 \<and> identity s2 = identity s" if "reaches w w'"
    by (rule who.evolves [OF that i(1) assms(3)]) (simp add: same_def)
  ultimately show ?thesis using built by blast
qed

theorem data_channel_identity_witness:
  "started example_os example_pki (example_host []) example_config ({#}, Map.empty) = (Inr example_start, ({#}, Map.empty)) \<and>
   reaches example_start example_connected \<and> aead_law example_api \<and> v_data_routes example_connected 1 = Some 0 \<and>
   (\<exists>s slot pkt s' ct. v_store example_connected 0 = Some s \<and> active_slot s = Some slot \<and>
      build_data_packet example_api [69, 0] s = (Ok pkt, s') \<and> s_peer_id s = 1 \<and>
      DataPacketV2_parse pkt =
        Ok \<lparr>dp_key_id = ks_key_id slot, dp_peer_id = 1, dp_packet_id = ks_data_pid_out slot, dp_ciphertext = ct\<rparr>)"
proof -
  note st = example_started [of "({#}, Map.empty)"]
  obtain s where s: "v_sessions example_connected example_addr = Some 0" "v_store example_connected 0 = Some s"
    "s_state s = Established" "v_data_routes example_connected = [1 \<mapsto> 0]"
    by (rule example_connected_session)
  have "sess_inv s" using reachable_sess_ok [OF st example_reaches] s(2) by (simp add: all_sess_ok_def)
  then obtain slot where slot: "active_slot s = Some slot" using s(3) by (auto simp: sess_inv_def)
  then obtain pkt s' where b: "build_data_packet example_api [69, 0] s = (Ok pkt, s')"
    by (simp add: build_data_packet_def DataCipher_seal_def example_api_def ok_or_def TAG_SIZE_def Let_def)
  show ?thesis
    using st example_reaches example_api_law s b slot
      data_channel_identity [OF st example_reaches s(2) example_api_law slot b, of 1 example_connected]
    by auto
qed

section \<open>Inbound data\<close>

text \<open>A server with one keyed session, for the witnesses.\<close>

definition keyed_server :: "unit VpnServer" where
  "keyed_server =
     (initial_server example_config (None, None) 0x0A080003 0x0A0800FE (None, None))
       \<lparr>v_store := [0 \<mapsto> keyed_session], v_next_ref := 1, v_sessions := [example_addr \<mapsto> 0],
        v_routes := [0x0A080002 \<mapsto> example_addr], v_peers := [1 \<mapsto> example_addr], v_data_routes := [1 \<mapsto> 0],
        v_tun_writer_ready := True\<rparr>"

definition unit_tls :: "unit rustls_api" where
  "unit_tls =
     \<lparr>conn_read_tls = (\<lambda>c data. (Ok (length data), c)), conn_process_new_packets = (\<lambda>c. (Ok (), c)),
      conn_reader_read = (\<lambda>c n. (Ok [], c)), conn_write_tls = (\<lambda>c. ([], c)), conn_is_handshaking = (\<lambda>c. True),
      conn_write_all = (\<lambda>c data. (Ok (), c)), conn_peer_leaf = (\<lambda>c. None), x509_common_names = (\<lambda>der. Ok [])\<rparr>"

definition unit_env :: "unit env" where
  "unit_env =
     \<lparr>env_crypto = example_api, env_rustls = unit_tls, env_now = 0, env_unix = Some 0, env_new_conn = Ok (),
      env_sid_bytes = replicate 8 1, env_r1 = replicate 32 2, env_r2 = replicate 32 3,
      env_send = (\<lambda>_. True), env_tun_open = True\<rparr>"

lemma keyed_slots: "s_slots keyed_session = [Some (new_slot 0 (replicate 256 1)), None]"
  by (simp add: keyed_session_def set_slot_def example_session_def Session_new_def)

lemma keyed_slot: "slot_by_key_id k keyed_session = (if k = 0 then Some (0, new_slot 0 (replicate 256 1)) else None)"
  by (simp add: slot_by_key_id_def keyed_slots new_slot_def)

lemma keyed_server_store [simp]: "v_store keyed_server 0 = Some keyed_session"
  by (simp add: keyed_server_def)

lemma open_data_cases:
  obtains (fail) e where "open_data E dp aad s = (Inl e, s)"
  | (opened) i slot pt where "slot_by_key_id (dp_key_id dp) s = Some (i, slot)"
      "DataCipher_open (env_crypto E) (ks_cipher slot) (dp_packet_id dp) aad (dp_ciphertext dp) = Ok pt"
proof (cases "slot_by_key_id (dp_key_id dp) s")
  case None
  then show thesis using fail by (simp add: open_data_def)
next
  case (Some x)
  obtain i slot where x: "x = (i, slot)" by (rule prod.exhaust)
  show thesis
    by (cases "DataCipher_open (env_crypto E) (ks_cipher slot) (dp_packet_id dp) aad (dp_ciphertext dp)")
      (use Some x fail opened in \<open>simp_all add: open_data_def\<close>)
qed

text \<open>C13: a data packet that no key slot of the session authenticates is refused with an error and
  changes nothing: not the replay window, not the session's last-seen time, not the TUN queue.\<close>

theorem forged_data_harmless:
  assumes "v_store w r = Some s" and "DataPacketV2_parse pkt = Ok dp"
    and "\<forall>i slot pt. slot_by_key_id (dp_key_id dp) s = Some (i, slot) \<longrightarrow>
      DataCipher_open (env_crypto E) (ks_cipher slot) (dp_packet_id dp) (take 8 pkt) (dp_ciphertext dp) \<noteq> Ok pt"
  shows "\<exists>e. decrypt_and_forward E r pkt w = (Inl e, w)"
proof (cases E dp "take 8 pkt" s rule: open_data_cases)
  case (fail e)
  then show ?thesis using assms(1,2)
    by (simp add: decrypt_and_forward_def bindM_def lock_def try_sess_def fun_upd_idem)
next
  case (opened i slot pt)
  then show ?thesis using assms(3) by blast
qed

theorem forged_data_harmless_witness:
  "\<exists>dp e. DataPacketV2_parse (data_header 0 1 5 @ replicate 20 0) = Ok dp \<and>
     v_store keyed_server 0 = Some keyed_session \<and> slot_by_key_id (dp_key_id dp) keyed_session \<noteq> None \<and>
     decrypt_and_forward unit_env 0 (data_header 0 1 5 @ replicate 20 0) keyed_server = (Inl e, keyed_server)"
proof -
  let ?pkt = "data_header 0 1 5 @ replicate 20 0"
  let ?dp = "\<lparr>dp_key_id = 0, dp_peer_id = 1, dp_packet_id = 5, dp_ciphertext = replicate 20 0\<rparr>"
  have p: "DataPacketV2_parse ?pkt = Ok ?dp" by (rule parse_data_header) simp_all
  have bad: "isl (DataCipher_open example_api (ks_cipher (new_slot 0 (replicate 256 1))) 5 (take 8 ?pkt) (replicate 20 0))"
    by code_simp
  have "\<exists>e. decrypt_and_forward unit_env 0 ?pkt keyed_server = (Inl e, keyed_server)"
    by (rule forged_data_harmless [OF keyed_server_store p])
      (use bad in \<open>auto simp: keyed_slot unit_env_def\<close>)
  with p show ?thesis by (auto simp: keyed_slot)
qed

section \<open>Delivery\<close>

lemma open_data_Ok:
  assumes "slot_by_key_id (dp_key_id dp) s = Some (i, slot)"
    and "DataCipher_open (env_crypto E) (ks_cipher slot) (dp_packet_id dp) aad (dp_ciphertext dp) = Ok pt"
    and "fst (check_and_set (ks_replay slot) (dp_packet_id dp))"
  shows "\<exists>s'. open_data E dp aad s = (Ok pt, s')"
  using assms by (simp add: open_data_def case_prod_beta Let_def)

lemma receive_data_header:
  "receive_packet E addr tr (data_header k p pid @ ct) w = route_data (data_header k p pid @ ct) w"
proof -
  let ?pkt = "data_header k p pid @ ct"
  have "?pkt ! 0 = op_byte DataV2 k" "data_header k p pid \<noteq> []" by (simp_all add: data_header_def op_byte_def)
  moreover have "OpCode_from_u8 (drop_bit 3 (op_byte DataV2 k)) = Ok DataV2"
    by (simp only: op_byte_op OpCode_from_as)
  ultimately show ?thesis by (simp add: receive_packet_def is_data_def)
qed

text \<open>C10: a fresh data packet sealed by the client under a key the session has, received from the
  network and taken up by the session's worker, puts exactly the tunnelled packet on the TUN queue.\<close>

theorem client_packet_reaches_tun:
  assumes "aead_law (env_crypto E)" and "v_data_routes w p = Some r" and "v_store w r = Some s"
    and "v_inbox w r = []" and "k AND 7 = k" and "p < 2 ^ 24"
    and "slot_by_key_id k s = Some (i, slot)" and "fst (check_and_set (ks_replay slot) pid)"
    and "DataCipher_seal (env_crypto E) (DataCipher_mirror (ks_cipher slot)) pid (data_header k p pid) pt = Ok ct"
    and "pt \<noteq> PING_PAYLOAD" and "env_tun_open E"
  shows "v_tun (worker_step E r (receive_packet E' addr tr (data_header k p pid @ ct) w)) = v_tun w @ [pt]"
proof -
  let ?pkt = "data_header k p pid @ ct" and ?w = "w\<lparr>v_inbox := (v_inbox w)(r := [])\<rparr>"
  note parse = parse_data_header [OF assms(5,6), of pid ct]
  have head: "take 8 ?pkt = data_header k p pid" by (simp add: data_header_def)
  obtain s' where "open_data E \<lparr>dp_key_id = k, dp_peer_id = p, dp_packet_id = pid, dp_ciphertext = ct\<rparr>
      (data_header k p pid) s = (Ok pt, s')"
    using open_data_Ok [where dp = "\<lparr>dp_key_id = k, dp_peer_id = p, dp_packet_id = pid, dp_ciphertext = ct\<rparr>"]
      open_seal(1) [OF assms(1,9)] assms(7,8) by fastforce
  then have "v_tun (snd (decrypt_and_forward E r ?pkt ?w)) = v_tun w @ [pt]"
    using parse head assms(3,10,11)
    by (simp add: decrypt_and_forward_def bindM_def lock_def try_sess_def tun_send_def)
  then show ?thesis
    using parse assms(2,4) by (simp add: receive_data_header route_data_def worker_step_def)
qed

theorem client_packet_reaches_tun_witness:
  "\<exists>ct. DataCipher_seal example_api (DataCipher_mirror (ks_cipher (new_slot 0 (replicate 256 1)))) 1
        (data_header 0 1 1) [69, 0] = Ok ct \<and>
     aead_law (env_crypto unit_env) \<and> fst (check_and_set ReplayWindow_new 1) \<and>
     v_tun (worker_step unit_env 0 (receive_packet unit_env example_addr (Udp example_addr)
        (data_header 0 1 1 @ ct) keyed_server)) = [[69, 0]]"
proof -
  have E: "env_crypto unit_env = example_api" "env_tun_open unit_env" by (simp_all add: unit_env_def)
  obtain ct where ct: "DataCipher_seal (env_crypto unit_env)
      (DataCipher_mirror (ks_cipher (new_slot 0 (replicate 256 1)))) 1 (data_header 0 1 1) [69, 0] = Ok ct"
    by (simp add: E DataCipher_seal_def example_api_def ok_or_def TAG_SIZE_def Let_def)
  have w: "v_data_routes keyed_server 1 = Some 0" "v_inbox keyed_server 0 = []" "v_tun keyed_server = []"
    by (simp_all add: keyed_server_def initial_server_def)
  have fresh: "fst (check_and_set (ks_replay (new_slot 0 (replicate 256 1))) 1)" by code_simp
  have law: "aead_law (env_crypto unit_env)" using example_api_law E by simp
  have "v_tun (worker_step unit_env 0 (receive_packet unit_env example_addr (Udp example_addr)
        (data_header 0 1 1 @ ct) keyed_server)) = v_tun keyed_server @ [[69, 0]]"
    by (rule client_packet_reaches_tun [OF law w(1) keyed_server_store w(2) _ _ _ fresh ct _ E(2)])
      (simp_all add: keyed_slot PING_PAYLOAD_def)
  with ct law fresh w(3) E(1) show ?thesis by (auto simp: new_slot_def)
qed

end
