(* ===== verification/Server_Loops.thy ===== *)
theory Server_Loops
  imports Server_Props "HOL-Library.Sublist"
begin

text \<open>The loops of \<open>server.rs\<close>: the ticks of the periodic tasks over a snapshot of the session addresses,
  the reader of the TUN device, the UDP receive loop with its shutdown arm, and the reader and writer of
  one TCP stream. Each is given what it reads as a list, with the environment of every round. They only
  go through states of \<open>reaches\<close>, so that what holds of every reachable state holds of them.\<close>

declare split_paired_All [simp del] split_paired_Ex [simp del]

section \<open>Ticks of the periodic tasks\<close>

text \<open>The rekey task exists only with a positive \<open>reneg_sec\<close>.\<close>

definition rekey_tick :: "'c env \<Rightarrow> SocketAddr list \<Rightarrow> 'c VpnServer \<Rightarrow> 'c VpnServer" where
  "rekey_tick E addrs w = (if cfg_reneg_sec (v_cfg w) > 0 then fold (rekey_one E) addrs w else w)"

definition ping_tick :: "'c env \<Rightarrow> SocketAddr list \<Rightarrow> 'c VpnServer \<Rightarrow> 'c VpnServer" where
  "ping_tick E addrs w = fold (ping_one E) addrs w"

definition retransmit_tick :: "'c env \<Rightarrow> SocketAddr list \<Rightarrow> 'c VpnServer \<Rightarrow> 'c VpnServer" where
  "retransmit_tick E addrs w = fold (retransmit_one E) addrs w"

section \<open>The reader of the TUN device\<close>

text \<open>An empty read is skipped; a read error ends the task.\<close>

fun tun_reader :: "('c env \<times> bytes result) list \<Rightarrow> 'c VpnServer \<Rightarrow> 'c VpnServer" where
  "tun_reader [] w = w"
| "tun_reader ((E, Inr pkt) # reads) w =
     (if pkt \<noteq> [] then tun_reader reads (snd (forward_tun_to_client E pkt w)) else tun_reader reads w)"
| "tun_reader ((E, Inl e) # reads) w = w"

section \<open>The UDP receive loop\<close>

text \<open>Ctrl-C, with the addresses of the snapshot \<open>shutdown_clients\<close> takes, or the result of
  \<open>recv_from\<close>. The loop's value tells whether it has returned.\<close>

datatype udp_input =
    CtrlC "SocketAddr list"
  | RecvErr error
  | RecvFrom bytes SocketAddr

fun udp_loop :: "('c env \<times> udp_input) list \<Rightarrow> 'c VpnServer \<Rightarrow> bool \<times> 'c VpnServer" where
  "udp_loop [] w = (False, w)"
| "udp_loop ((E, CtrlC addrs) # ins) w = (True, shutdown_clients E addrs w)"
| "udp_loop ((E, RecvErr e) # ins) w = udp_loop ins w"
| "udp_loop ((E, RecvFrom pkt addr) # ins) w = udp_loop ins (receive_packet E addr (Udp addr) pkt w)"

section \<open>One TCP stream\<close>

text \<open>The writer task over the packets of the channel: \<open>failing out framed\<close> is the number of bytes the
  stream still took when \<open>write_all\<close> fails after \<open>out\<close> was written.\<close>

fun tcp_writer :: "(bytes \<Rightarrow> bytes \<Rightarrow> nat option) \<Rightarrow> bytes list \<Rightarrow> bytes \<Rightarrow> bytes" where
  "tcp_writer failing [] out = out"
| "tcp_writer failing (bs # channel) out =
     (if length bs > 65535 then tcp_writer failing channel out
      else case failing out (tcp_frame bs) of
             Some n \<Rightarrow> out @ take n (tcp_frame bs)
           | None \<Rightarrow> tcp_writer failing channel (out @ tcp_frame bs))"

text \<open>The packets of a stream dispatched one after the other, round \<open>i\<close> with the environment \<open>Es i\<close>.\<close>

fun receive_all :: "(nat \<Rightarrow> 'c env) \<Rightarrow> nat \<Rightarrow> SocketAddr \<Rightarrow> Transport \<Rightarrow> bytes list \<Rightarrow> 'c VpnServer \<Rightarrow> 'c VpnServer" where
  "receive_all Es i peer transport [] w = w"
| "receive_all Es i peer transport (pkt # pkts) w =
     receive_all Es (Suc i) peer transport pkts (receive_packet (Es i) peer transport pkt w)"

definition run_tcp_stream :: "(nat \<Rightarrow> 'c env) \<Rightarrow> SocketAddr \<Rightarrow> Transport \<Rightarrow> bytes \<Rightarrow> 'c VpnServer \<Rightarrow> 'c VpnServer" where
  "run_tcp_stream Es peer transport stream w =
     tcp_closed peer (receive_all Es 0 peer transport (tcp_packets stream) w)"

section \<open>The loops stay within the reachable states\<close>

lemma reaches_trans: "reaches w1 w2 \<Longrightarrow> reaches w0 w1 \<Longrightarrow> reaches w0 w2"
  by (induction rule: reaches.induct) (auto intro: reaches.step)

lemma reaches_event: "reaches w (server_event E ev w)"
  by (rule reaches.step [OF reaches.start])

lemma reaches_fold: "(\<And>x w. reaches w (f x w)) \<Longrightarrow> reaches w (fold f xs w)"
  by (induction xs arbitrary: w) (auto intro: reaches.start reaches_trans)

lemma reaches_receive: "reaches w (receive_packet E addr transport pkt w)"
  using reaches_event [of w E "Receive addr transport pkt"] by simp

lemma reaches_receive_all: "reaches w (receive_all Es i peer transport pkts w)"
  by (induction pkts arbitrary: i w) (simp add: reaches.start, metis receive_all.simps(2) reaches_receive reaches_trans)

lemma reaches_tcp_stream: "reaches w (run_tcp_stream Es peer transport stream w)"
  using reaches.step [OF reaches_receive_all, of w _ "TcpClosed peer"] by (simp add: run_tcp_stream_def)

lemma reaches_shutdown: "reaches w (shutdown_clients E addrs w)"
proof -
  have "reaches w (shutdown_client E a w)" for a w using reaches_event [of w E "Shutdown a"] by simp
  then show ?thesis unfolding shutdown_clients_def by (rule reaches_fold)
qed

lemma reaches_udp_loop: "reaches w (snd (udp_loop ins w))"
  by (induction ins w rule: udp_loop.induct)
    (simp_all add: reaches.start reaches_shutdown, metis reaches_receive reaches_trans)

lemma reaches_tun_reader: "reaches w (tun_reader reads w)"
proof (induction reads w rule: tun_reader.induct)
  case (2 E pkt reads w)
  have "reaches w (snd (forward_tun_to_client E pkt w))" using reaches_event [of w E "FromTun pkt"] by simp
  with 2 show ?case by (auto intro: reaches_trans)
qed (auto intro: reaches.start)

text \<open>The configuration, the pool bounds and the envelope keys never change.\<close>

definition constants :: "'c VpnServer \<Rightarrow> _" where
  "constants w = (v_cfg w, v_pool_end w, v_pool_end_v6 w, v_tls_crypt w, v_tls_auth w, v_tun_writer_ready w)"

lemma constants_push: "keeps (same (constants \<circ> fst)) (push_request E addr)"
proof -
  have a: "keeps (same (constants \<circ> fst)) (try_server m)" if "\<And>w. constants (snd (m w)) = constants w" for m
    by (rule keeps_try_server) (simp add: same_def that)
  have b: "keeps (same (constants \<circ> fst)) (on_sess f)" "keeps (same (constants \<circ> fst)) (try_sess g)" for f g
    by (simp_all add: keeps_def same_def on_sess_def try_sess_def case_prod_beta Let_def)
  show ?thesis
    unfolding push_request_def choose_ip_def push_reply_to_def sess_send_plaintext_def
    by (intro keeps_intros same_preorder a b)
      (auto simp: constants_def allocate_ip_def allocate_ip_v6_def Let_def intro!: keeps_intros same_preorder
        split: option.split IpAddr.split)
qed

interpretation fixed: push_relation "same (constants \<circ> fst)" addr
  by unfold_locales (auto simp: same_def constants_def constants_push)

interpretation unchanged: server_invariant "\<lambda>w. constants w = c" for c
proof
  fix w :: "'c VpnServer" and a r and s :: "'c Session"
  assume i: "constants w = c" and "v_store w r = Some s"
  have same: "constants (put r (snd (m (w, s)))) = c" if "keeps (same (constants \<circ> fst)) m"
    for m :: "('c, unit) locked"
  proof -
    have "constants (fst (snd (m (w, s)))) = constants w" using that by (simp add: keeps_def same_def)
    then show ?thesis using i by (simp add: constants_def put_def case_prod_beta)
  qed
  show "constants (put r (snd (handle_session_packet E a ctrl p (w, s)))) = c"
    if "cp_key_id ctrl AND 7 = cp_key_id ctrl" for E ctrl p
    by (rule same [OF fixed.session_packet [OF that]])
  show "constants (put r (snd (m (w, s)))) = c" if "task E m" for E m
    by (rule same [OF task_keeps [OF that fixed.lock_relation_axioms]])
qed (auto simp: constants_def put_def remove_ids_def register_session_def spawn_data_worker_def Let_def)

lemma reneg_constant: "cfg_reneg_sec (v_cfg (server_event E ev w)) = cfg_reneg_sec (v_cfg w)"
  using unchanged.event [of w "constants w" E ev] by (simp add: constants_def)

lemma fold_rekey:
  "cfg_reneg_sec (v_cfg w) > 0 \<Longrightarrow> reaches w (fold (rekey_one E) addrs w)"
proof (induction addrs arbitrary: w)
  case (Cons a addrs)
  then have e: "rekey_one E a w = server_event E (Rekey a) w" by simp
  show ?case using Cons reneg_constant [of E "Rekey a" w]
    by (simp add: e del: server_event.simps) (metis reaches_trans reaches_event)
qed (simp add: reaches.start)


section \<open>A TCP stream carries the packets of its writer\<close>

definition tcp_sendable :: "bytes \<Rightarrow> bool" where
  "tcp_sendable p \<longleftrightarrow> p \<noteq> [] \<and> length p \<le> 65535"

lemma tcp_length: "length (p :: bytes) \<le> 65535 \<Longrightarrow> unat (from_be_bytes (to_be_bytes (word_of_nat (length p) :: u16)) :: u16) = length p"
  by (simp add: from_to_be unsigned_of_nat take_bit_nat_eq_self)

lemma tcp_packets_frame:
  assumes "length p \<le> 65535"
  shows "tcp_packets (tcp_frame p @ rest) = filter tcp_sendable [p] @ tcp_packets rest"
  using assms tcp_length [OF assms] by (subst tcp_packets.simps) (auto simp: tcp_frame_def tcp_sendable_def Let_def)

lemma tcp_packets_frames:
  "tcp_packets (concat (map tcp_frame pkts) @ part) = filter tcp_sendable pkts @ tcp_packets part"
proof (induction pkts)
  case (Cons p pkts)
  then show ?case using tcp_packets_frame [of p "concat (map tcp_frame pkts) @ part"]
    by (cases "length p \<le> 65535") (simp_all add: tcp_frame_def [of p] tcp_sendable_def)
qed simp

text \<open>A frame that was cut is not dispatched.\<close>

lemma tcp_packets_cut:
  assumes "length p \<le> 65535" "n < length (tcp_frame p)"
  shows "tcp_packets (take n (tcp_frame p)) = []"
proof (cases "n < 2")
  case False
  then have "take n (tcp_frame p) = to_be_bytes (word_of_nat (length p) :: u16) @ take (n - 2) p" "n < length p + 2"
    using assms by (simp_all add: tcp_frame_def)
  then show ?thesis
    using tcp_length [OF assms(1)] False by (subst tcp_packets.simps) (auto simp: Let_def)
qed (subst tcp_packets.simps, simp)

text \<open>What the writer puts on the stream: the frames of the packets up to a failure, and a part of the
  frame that failed.\<close>

lemma tcp_writer_stream:
  "\<exists>sent part. tcp_writer failing pkts out = out @ concat (map tcp_frame sent) @ part \<and> prefix sent pkts \<and>
     tcp_packets part = [] \<and> ((\<forall>out framed. failing out framed = None) \<longrightarrow> sent = pkts)"
proof (induction pkts arbitrary: out)
  case Nil
  show ?case by (intro exI [of _ "[]"]) (simp add: tcp_packets.simps [of "[]"])
next
  case (Cons p pkts)
  have none: "tcp_packets [] = []" by (subst tcp_packets.simps) simp
  show ?case
  proof (cases "length p > 65535")
    case True
    from Cons [of out] obtain sent part where
      "tcp_writer failing pkts out = out @ concat (map tcp_frame sent) @ part" "prefix sent pkts"
      "tcp_packets part = []" "(\<forall>out framed. failing out framed = None) \<longrightarrow> sent = pkts" by blast
    with True show ?thesis
      by (intro exI [of _ "p # sent"] exI [of _ part]) (simp add: tcp_frame_def [of p])
  next
    case short: False
    show ?thesis
    proof (cases "failing out (tcp_frame p)")
      case None
      from Cons [of "out @ tcp_frame p"] obtain sent part where
        "tcp_writer failing pkts (out @ tcp_frame p) = (out @ tcp_frame p) @ concat (map tcp_frame sent) @ part"
        "prefix sent pkts" "tcp_packets part = []" "(\<forall>out framed. failing out framed = None) \<longrightarrow> sent = pkts" by blast
      with None short show ?thesis by (intro exI [of _ "p # sent"] exI [of _ part]) simp
    next
      case (Some n)
      show ?thesis
      proof (cases "n < length (tcp_frame p)")
        case True
        with Some short tcp_packets_cut [of p n] show ?thesis
          by (intro exI [of _ "[]"] exI [of _ "take n (tcp_frame p)"]) (auto simp: option.distinct)
      next
        case False
        with Some short none show ?thesis by (intro exI [of _ "[p]"] exI [of _ "[]"]) auto
      qed
    qed
  qed
qed

text \<open>C19: a peer that frames its packets as the server's writer does is served, over a stream that may break
  at any byte, the packets it wrote, in order and up to some point, exactly as if each had arrived by
  itself, and is then evicted; without a write error these are all its packets. Only empty packets and
  ones longer than 65535 octets are left out, and a frame that was cut is never dispatched.\<close>

theorem tcp_stream_dispatch:
  "\<exists>pkts'. prefix pkts' (filter tcp_sendable pkts) \<and>
     run_tcp_stream Es peer transport (tcp_writer failing pkts []) w =
       tcp_closed peer (receive_all Es 0 peer transport pkts' w) \<and>
     ((\<forall>out framed. failing out framed = None) \<longrightarrow> pkts' = filter tcp_sendable pkts)"
proof -
  obtain sent part where s: "tcp_writer failing pkts [] = concat (map tcp_frame sent) @ part" "prefix sent pkts"
    "tcp_packets part = []" "(\<forall>out framed. failing out framed = None) \<longrightarrow> sent = pkts"
    using tcp_writer_stream [of failing pkts "[]"] by auto
  then have "prefix (filter tcp_sendable sent) (filter tcp_sendable pkts)" by (auto simp: prefix_def)
  with s show ?thesis
    by (intro exI [of _ "filter tcp_sendable sent"]) (simp add: run_tcp_stream_def tcp_packets_frames)
qed

text \<open>A stream that breaks in the second frame: the first packet is dispatched, then the peer is evicted.\<close>

theorem tcp_stream_dispatch_witness:
  "tcp_packets (tcp_writer (\<lambda>out _. if out = [] then None else Some 3) [[1, 2], [3, 4, 5]] []) = [[1, 2]] \<and>
   (\<exists>pkts'. prefix pkts' [[1, 2], [3, 4, 5]] \<and>
     run_tcp_stream (\<lambda>_. example_env) example_addr (Tcp 0)
       (tcp_writer (\<lambda>out _. if out = [] then None else Some 3) [[1, 2], [3, 4, 5]] []) example_start =
       tcp_closed example_addr (receive_all (\<lambda>_. example_env) 0 example_addr (Tcp 0) pkts' example_start))"
proof
  have "tcp_frame [1, 2] \<noteq> []" by (simp add: tcp_frame_def)
  then show "tcp_packets (tcp_writer (\<lambda>out _. if out = [] then None else Some 3) [[1, 2], [3, 4, 5]] []) = [[1, 2]]"
    using tcp_packets_frame [of "[1, 2]" "take 3 (tcp_frame [3, 4, 5])"] tcp_packets_cut [of "[3, 4, 5]" 3]
    by (simp add: tcp_sendable_def) (simp add: tcp_frame_def)
  have f: "filter tcp_sendable [[1, 2], [3, 4, 5]] = [[1, 2], [3, 4, 5]]" by (simp add: tcp_sendable_def)
  show "\<exists>pkts'. prefix pkts' [[1, 2], [3, 4, 5]] \<and>
     run_tcp_stream (\<lambda>_. example_env) example_addr (Tcp 0)
       (tcp_writer (\<lambda>out _. if out = [] then None else Some 3) [[1, 2], [3, 4, 5]] []) example_start =
       tcp_closed example_addr (receive_all (\<lambda>_. example_env) 0 example_addr (Tcp 0) pkts' example_start)"
    using tcp_stream_dispatch [of "[[1, 2], [3, 4, 5]]", unfolded f] by blast
qed

end
