(* ===== verification/Failures.thy ===== *)
theory Failures
  imports Server_Loops
begin

text \<open>Failures the server does not recover from (\<open>src/src/server.rs\<close>). A rekey that the client does not answer
  (\<open>handle_soft_reset\<close>, the rekey task and \<open>handle_rekey_control\<close>): only the key-method-2 exchange under its
  key id removes the rekey track, and while there is one no other rekey is started. A \<open>PUSH_REPLY\<close> that cannot
  be written (\<open>drive_control_plane\<close>): the address it would have carried stays routed.\<close>

declare split_paired_All [simp del] split_paired_Ex [simp del]

section \<open>What keeps the track\<close>

definition tracks_key :: "u8 \<Rightarrow> 'c Session \<Rightarrow> bool" where
  "tracks_key k s \<longleftrightarrow> map_option rk_key_id (s_rekey s) = Some k"

lemma tracks_core: "sess_core s' = sess_core s \<Longrightarrow> stays (tracks_key k) s s'"
  by (simp add: stays_def tracks_key_def sess_core_def)

lemma tracks_ops:
  "stays (tracks_key k) s (snd (build_data_packet A pt s))" "stays (tracks_key k) s (snd (install_prf_slot A i s))"
  "stays (tracks_key k) s (snd (open_data E dp aad s))"
  by (auto simp: stays_def tracks_key_def build_data_packet_def install_prf_slot_def install_slot_def set_slot_def
      open_data_def Let_def case_prod_beta split: option.split sum.split)

interpretation track: lock_relation "lifted (stays (tracks_key k))" for k
  by unfold_locales
    (simp_all add: lifted_preorder stays_preorder tracks_core tracks_ops, simp_all add: stays_def tracks_key_def)

lemma tracks_push: "keeps (lifted (stays (tracks_key k))) (push_request E addr)"
  by (rule lifted_push_request) (simp_all add: stays_preorder tracks_core, simp_all add: stays_def tracks_key_def)

text \<open>A packet of the session's client, unless it is a \<open>P_CONTROL_V1\<close> under the key id of the track.\<close>

lemma tracks_packet:
  assumes "cp_key_id ctrl AND 7 = cp_key_id ctrl" and no: "\<not> (cp_op ctrl = ControlV1 \<and> cp_key_id ctrl = k)"
  shows "lifted (stays (tracks_key k)) (w, s) (snd (handle_session_packet E a ctrl p (w, s)))"
proof -
  let ?R = "lifted (stays (tracks_key k))"
  note plane = track.plane_packet [where payload = "cp_payload ctrl", OF _ tracks_push]
  have "?R (w, s) (snd (handle_control_v1 E a ctrl (w, s)))" if "cp_key_id ctrl \<noteq> k" for w s
  proof (cases "case s_rekey s of Some rk \<Rightarrow> rk_key_id rk = cp_key_id ctrl | None \<Rightarrow> False")
    case True
    then have "\<not> tracks_key k s" using that by (auto simp: tracks_key_def split: option.splits)
    moreover have "lifted (\<lambda>_ _. True) (w, s) (snd (handle_control_v1 E a ctrl (w, s)))"
      using anything.lift.control_v1 [of E a ctrl] by (simp add: keeps_def)
    ultimately show ?thesis by (cases "snd (handle_control_v1 E a ctrl (w, s))") (simp add: stays_def)
  next
    case False
    then show ?thesis using plane [of k E a] unfolding handle_control_v1_def run_with0
      by (simp add: keeps_def tracks_ops)
  qed
  then have v: "keeps ?R (handle_control_v1 E a ctrl)" if "cp_key_id ctrl \<noteq> k"
    using that by (simp add: keeps_def split_paired_All)
  have "keeps ?R (case cp_op ctrl of AckV1 \<Rightarrow> returnM () | ControlV1 \<Rightarrow> handle_control_v1 E a ctrl
    | ControlSoftResetV1 \<Rightarrow> handle_soft_reset E ctrl | _ \<Rightarrow> returnM ())"
    using no v track.soft_resets [OF assms(1)] by (cases "cp_op ctrl") (auto intro!: track.steps)
  then have "keeps ?R (handle_session_packet E a ctrl p)"
    unfolding handle_session_packet_def
    by (intro track.steps track.on_frame track.try_frame)
      (simp_all add: case_prod_beta Let_def split: option.split)
  then show ?thesis by (simp add: keeps_def)
qed

section \<open>Runs\<close>

definition stalled :: "nat \<Rightarrow> u8 \<Rightarrow> 'c VpnServer \<Rightarrow> bool" where
  "stalled r k w \<longleftrightarrow> store_ok w \<and> (\<exists>s. v_store w r = Some s \<and> tracks_key k s)"

lemma stalled_put: "stalled r k w \<Longrightarrow> v_store w q = Some s \<Longrightarrow> lifted (stays (tracks_key k)) (w, s) st \<Longrightarrow> stalled r k (put q st)"
  by (cases st) (auto simp: stalled_def store_ok_def stays_def)

lemma stalled_other:
  "stalled r k w \<Longrightarrow> q \<noteq> r \<Longrightarrow> v_store w q = Some s \<Longrightarrow> lifted Q (w, s) st \<Longrightarrow> stalled r k (put q st)"
  by (cases st) (auto simp: stalled_def store_ok_def)

interpretation stalled_run: task_invariant "stalled r k" for r k
proof
  fix w :: "'c VpnServer" and a q and s :: "'c Session" and E and m :: "('c, unit) locked"
  assume "stalled r k w" "v_store w q = Some s" and t: "task E m"
  then show "stalled r k (put q (snd (m (w, s))))"
    using stalled_put [of r k w q s "snd (m (w, s))"] task_keeps [OF t track.lock_relation_axioms [of k]]
    by (simp add: keeps_def)
next
  fix w :: "'c VpnServer" and a q tr and s :: "'c Session"
  assume "stalled r k w"
  then show "stalled r k (register_session a q s w)"
    by (auto simp: stalled_def store_ok_def register_session_def spawn_data_worker_def Let_def)
qed (auto simp: stalled_def store_ok_def remove_ids_def)

lemma stalled_worker:
  assumes "stalled r k w"
  shows "stalled r k (worker_step E q w)"
proof (cases "v_inbox w q")
  case (Cons raw rest)
  let ?w = "w\<lparr>v_inbox := (v_inbox w)(q := rest)\<rparr>"
  have w: "stalled r k ?w" by (rule stalled_run.queued(2) [OF assms])
  have "stalled r k (snd (decrypt_and_forward E q raw ?w))"
  proof (cases "DataPacketV2_parse raw")
    case (Inr dp)
    have "stalled r k (snd (lock q (try_sess (open_data E dp (take 8 raw))) ?w))"
      by (rule stalled_run.locked [OF w], rule stalled_put [OF w])
        (auto simp: try_sess_def case_prod_beta Let_def intro: tracks_ops)
    then show ?thesis using Inr stalled_run.queued(1)
      by (auto simp: decrypt_and_forward_def bindM_def tun_send_def case_prod_beta split: sum.split)
  qed (simp add: decrypt_and_forward_def w)
  then show ?thesis using Cons by (simp add: worker_step_def)
qed (simp add: worker_step_def assms)

text \<open>The packet is a control packet that reaches the rekey track with key id \<open>k\<close>.\<close>

definition answers :: "'c env \<Rightarrow> 'c VpnServer \<Rightarrow> u8 \<Rightarrow> bytes \<Rightarrow> bool" where
  "answers E w k pkt =
     (case unwrap_control E w pkt of
        Inl e \<Rightarrow> False
      | Inr (inner, _) \<Rightarrow>
          (case ControlPacket_parse (case inner of Some i \<Rightarrow> i | None \<Rightarrow> pkt) of
             Inl e \<Rightarrow> False
           | Inr ctrl \<Rightarrow> cp_op ctrl = ControlV1 \<and> cp_key_id ctrl = k))"

lemma stalled_receive:
  assumes v: "stalled r k w" and c: "v_sessions w a = Some r \<Longrightarrow> \<not> answers E w k pkt"
  shows "stalled r k (receive_packet E a tr pkt w)"
proof -
  have "stalled r k (snd (handle_control_packet E a (case inner of Some i \<Rightarrow> i | None \<Rightarrow> pkt) q tr w))"
    if u: "unwrap_control E w pkt = Inr (inner, q)" for inner q
  proof (cases "ControlPacket_parse (case inner of Some i \<Rightarrow> i | None \<Rightarrow> pkt)")
    case (Inr ctrl)
    note key = parsed_key_id [OF Inr]
    show ?thesis
    proof (cases "v_sessions w a")
      case None
      then show ?thesis using Inr v stalled_run.created [OF v, of a] by (auto simp: handle_control_packet_def)
    next
      case (Some x)
      have "stalled r k (put x (snd (handle_session_packet E a ctrl q (w, s))))" if s: "v_store w x = Some s" for s
      proof (cases "x = r")
        case True
        then have "\<not> (cp_op ctrl = ControlV1 \<and> cp_key_id ctrl = k)"
          using c Some u Inr by (simp add: answers_def)
        then show ?thesis by (intro stalled_put [OF v s] tracks_packet [OF key])
      qed (rule stalled_other [OF v _ s anything.lifted_packet [OF key]])
      then have "stalled r k (snd (lock x (handle_session_packet E a ctrl q) w))" by (rule stalled_run.locked [OF v])
      then show ?thesis using Inr Some by (simp add: handle_control_packet_def domIff)
    qed
  qed (simp add: handle_control_packet_def v)
  then show ?thesis using v stalled_run.routed_data [OF v]
    by (auto simp: receive_packet_def Let_def split: sum.split)
qed

text \<open>A run of events in which the client of session \<open>r\<close> never answers the rekey under key id \<open>k\<close>; everything
  else may happen.\<close>

fun unanswered :: "nat \<Rightarrow> u8 \<Rightarrow> ('c env \<times> event) list \<Rightarrow> 'c VpnServer \<Rightarrow> bool" where
  "unanswered r k [] w = True"
| "unanswered r k ((E, ev) # evs) w =
     ((case ev of Receive a tr pkt \<Rightarrow> v_sessions w a = Some r \<longrightarrow> \<not> answers E w k pkt | _ \<Rightarrow> True) \<and>
      unanswered r k evs (server_event E ev w))"

fun run_events :: "('c env \<times> event) list \<Rightarrow> 'c VpnServer \<Rightarrow> 'c VpnServer" where
  "run_events [] w = w"
| "run_events ((E, ev) # evs) w = run_events evs (server_event E ev w)"

lemma stalled_runs: "unanswered r k evs w \<Longrightarrow> stalled r k w \<Longrightarrow> stalled r k (run_events evs w)"
proof (induction evs arbitrary: w)
  case (Cons x evs)
  obtain E ev where x: "x = (E, ev)" by (rule prod.exhaust)
  have "stalled r k (server_event E ev w)"
  proof (cases "(\<exists>a tr p. ev = Receive a tr p) \<or> (\<exists>q. ev = Worker q)")
    case True
    then show ?thesis using Cons.prems x by (auto intro: stalled_receive stalled_worker)
  next
    case False
    then show ?thesis by (intro stalled_run.other_event [OF Cons.prems(2)]) auto
  qed
  then show ?case using Cons.IH [of "server_event E ev w"] Cons.prems(1) by (simp add: x)
qed simp

text \<open>C38: an unanswered rekey blocks every later one. From a reachable state in which a session has a rekey
  track, over any run in which its client sends no \<open>P_CONTROL_V1\<close> under the key id of that track, whatever
  else the client and the server do, the track stays, and both ways to renew the keys have no effect: the
  periodic rekey of the session and a SOFT_RESET of the client change nothing.\<close>

theorem unanswered_rekey_blocks:
  assumes "started os K H cfg h = (Inr w0, h')" and "reaches w0 w" and "v_store w r = Some s"
    and "s_rekey s = Some rk" and "unanswered r (rk_key_id rk) evs w"
  shows "\<exists>s'. v_store (run_events evs w) r = Some s' \<and> map_option rk_key_id (s_rekey s') = Some (rk_key_id rk) \<and>
    init_rekey E (v, s') = (Ok (), (v, s')) \<and> handle_soft_reset E ctrl (v, s') = (Ok (), (v, s'))"
proof -
  have "store_ok w" using store.reachable [OF assms(2)] started_runs(1) [OF assms(1)] .
  then have "stalled r (rk_key_id rk) w" using assms(3,4) by (simp add: stalled_def tracks_key_def)
  from stalled_runs [OF assms(5) this] obtain s' where
    s': "v_store (run_events evs w) r = Some s'" "map_option rk_key_id (s_rekey s') = Some (rk_key_id rk)"
    by (auto simp: stalled_def tracks_key_def)
  then have "s_rekey s' \<noteq> None" by auto
  with s' show ?thesis by (intro exI [of _ s']) (simp add: init_rekey_def handle_soft_reset_def)
qed

text \<open>The example server after the periodic task started a rekey of its client.\<close>

lemma example_rekeying:
  obtains w s rk where "reaches example_start w" "v_store w 0 = Some s" "s_rekey s = Some rk"
proof -
  obtain s where s: "v_sessions example_connected example_addr = Some 0" "v_store example_connected 0 = Some s"
    "s_state s = Established"
    by (rule example_connected_session)
  show thesis
  proof (cases "s_rekey s")
    case None
    let ?E = "example_env\<lparr>env_now := s_last_rekey_at s + from_secs 3600\<rparr>" and ?w = example_connected
    let ?k = "(active_key_id s + 1) AND 0x07"
    let ?m = "bindM (call_sess (make_soft_reset_init ?k)) (send_and_track ?E)"
    let ?s = "(start_rekey ?k \<lparr>conn = [], plaintext_in = []\<rparr> (env_r1 ?E) (env_r2 ?E) s)\<lparr>s_last_rekey_at := env_now ?E\<rparr>"
    have "v_cfg ?w = v_cfg example_start"
      using unchanged.reachable [OF example_reaches, of "constants example_start"] by (simp add: constants_def)
    then have c: "cfg_reneg_sec (v_cfg ?w) = 3600" by (simp add: example_start_def initial_server_def example_config_def)
    have "TlsSession_new (env_new_conn ?E) = Ok \<lparr>conn = [], plaintext_in = []\<rparr>"
      by (simp add: TlsSession_new_def example_env_def)
    then have run: "init_rekey ?E (?w, s) = ?m (?w, ?s)"
      using s(3) None c by (simp add: init_rekey_def duration_since_def Let_def)
    have "keeps (lifted (stays (tracks_key ?k))) ?m"
      by (intro track.steps track.call_frame track.tracks) simp
    moreover have "tracks_key ?k ?s" by (simp add: tracks_key_def start_rekey_def)
    ultimately have t: "tracks_key ?k (snd (snd (?m (?w, ?s))))"
      by (cases "snd (?m (?w, ?s))") (auto simp: keeps_def stays_def dest: spec [of _ "(?w, ?s)"])
    let ?w' = "server_event ?E (Rekey example_addr) ?w"
    have "?w' = put 0 (snd (?m (?w, ?s)))"
      using s(1) c by (simp add: rekey_one_def visit_def snd_lock [OF s(2)] run)
    then have "v_store ?w' 0 = Some (snd (snd (?m (?w, ?s))))" by simp
    moreover have "reaches example_start ?w'" by (rule reaches.step [OF example_reaches])
    ultimately show thesis using t that by (auto simp: tracks_key_def)
  qed (rule that [OF example_reaches s(2)])
qed

theorem unanswered_rekey_blocks_witness:
  "\<exists>w s rk s'. reaches example_start w \<and> v_store w 0 = Some s \<and> s_rekey s = Some rk \<and>
     unanswered 0 (rk_key_id rk) [(example_env, Rekey example_addr), (example_env, Ping example_addr)] w \<and>
     v_store (run_events [(example_env, Rekey example_addr), (example_env, Ping example_addr)] w) 0 = Some s' \<and>
     map_option rk_key_id (s_rekey s') = Some (rk_key_id rk) \<and>
     init_rekey example_env (w, s') = (Ok (), (w, s'))"
proof -
  obtain w s rk where w: "reaches example_start w" "v_store w 0 = Some s" "s_rekey s = Some rk"
    by (rule example_rekeying)
  have u: "unanswered 0 (rk_key_id rk) [(example_env, Rekey example_addr), (example_env, Ping example_addr)] w"
    by simp
  show ?thesis
    using w u unanswered_rekey_blocks [OF example_started [of "({#}, Map.empty)"] w u, of example_env w] by blast
qed

section \<open>A push reply that fails\<close>

lemma push_request_run:
  assumes "client_config w s = None" "v_next_pool_ip w \<le> v_pool_end w" "v_next_pool_ip_v6 w = None"
  shows "push_request E addr (w, s) =
    thenM (sess_send_plaintext E (build_push_reply (v_cfg w) (v_next_pool_ip w) None (s_peer_id s) []))
      (on_sess (\<lambda>s. s\<lparr>s_state := Established\<rparr>)) (leased addr w, s\<lparr>s_assigned_ip := Some (V4 (v_next_pool_ip w))\<rparr>)"
proof -
  have cc: "client_config (leased addr w) (s\<lparr>s_assigned_ip := ip\<rparr>) = None" for ip
    using assms(1) by (simp add: client_config_def leased_def split: option.splits)
  have "choose_ip (w, s) = (Ok (v_next_pool_ip w), (w\<lparr>v_next_pool_ip := v_next_pool_ip w + 1\<rparr>, s))"
    using assms(1,2) by (simp add: choose_ip_def try_server_def allocate_ip_def Let_def linorder_not_less)
  then show ?thesis
    using cc assms(3) by (simp add: push_request_def bindM_Ok push_reply_to_def run_no_v6 leased_def)
qed

text \<open>C39: a failed push reply leaks an address. When the first reply to \<open>PUSH_REQUEST\<close> cannot be written and the
  one to a repeated request can, the client is established with the second address of the pool while the
  first one stays routed to it as well; evicting the session removes only the route of the second, so
  that the first address is neither free nor served. Assumed: two addresses are left in the pool, no
  IPv6 pool and no per-client configuration.\<close>

theorem failed_push_leaks_address:
  assumes "client_config w s = None" and "v_next_pool_ip w < v_pool_end w" and "v_next_pool_ip_v6 w = None"
    and "\<forall>c d. isl (fst (conn_write_all (env_rustls E1) c d))" and "writes_ok (env_rustls E2)"
  shows "\<exists>e w1 s1 w2 s2. push_request E1 addr (w, s) = (Err e, (w1, s1)) \<and> s_state s1 = s_state s \<and>
    push_request E2 addr (w1, s1) = (Ok (), (w2, s2)) \<and> s_state s2 = Established \<and>
    s_assigned_ip s2 = Some (V4 (v_next_pool_ip w + 1)) \<and>
    v_routes w2 (v_next_pool_ip w) = Some addr \<and> v_routes w2 (v_next_pool_ip w + 1) = Some addr \<and>
    v_routes (remove_ids s2 w2) (v_next_pool_ip w) = Some addr \<and>
    v_routes (remove_ids s2 w2) (v_next_pool_ip w + 1) = None \<and> v_next_pool_ip (remove_ids s2 w2) = v_next_pool_ip w + 1 + 1"
proof -
  let ?ip = "v_next_pool_ip w" and ?w1 = "leased addr w"
  have lt: "?ip < ?ip + 1" using assms(2) by (intro less_succ32) (metis order.strict_trans1 word_order.extremum linorder_not_le order.strict_trans2)
  have le: "?ip + 1 \<le> v_pool_end w" using assms(2) by (rule inc_le)
  obtain e c where f: "conn_write_all (env_rustls E1) (conn (s_tls s))
      (build_push_reply (v_cfg w) ?ip None (s_peer_id s) []) = (Inl e, c)"
    using assms(4) by (metis isl_def prod.collapse)
  let ?s1 = "s\<lparr>s_assigned_ip := Some (V4 ?ip), s_tls := (s_tls s)\<lparr>conn := c\<rparr>\<rparr>"
  have first: "push_request E1 addr (w, s) = (Err e, (?w1, ?s1))"
    using assms(1-3) f
    by (subst push_request_run) (simp_all add: thenM_def bindM_def sess_send_plaintext_def try_sess_def send_plaintext_def)
  have "client_config ?w1 ?s1 = None" "v_next_pool_ip ?w1 \<le> v_pool_end ?w1" "v_next_pool_ip_v6 ?w1 = None"
    using assms(1,3) le by (simp_all add: client_config_def leased_def split: option.splits)
  note second = push_request_run [OF this, of E2 addr, unfolded run_write [OF assms(5)] run_on0]
  show ?thesis
    by (intro exI conjI, rule first, simp, rule second)
      (use lt in \<open>simp_all add: leased_def written_def remove_ids_def\<close>)
qed

theorem failed_push_leaks_address_witness:
  "let E1 = example_env\<lparr>env_rustls := clear_tls\<lparr>conn_write_all := (\<lambda>c d. (Err (Bail ''closed'' []), c))\<rparr>\<rparr>
   in \<exists>e w1 s1 w2 s2. push_request E1 example_addr (example_start, waiting_session) = (Err e, (w1, s1)) \<and>
        push_request example_env example_addr (w1, s1) = (Ok (), (w2, s2)) \<and>
        s_assigned_ip s2 = Some (V4 0x0A080003) \<and> v_routes (remove_ids s2 w2) 0x0A080002 = Some example_addr"
proof -
  let ?E = "example_env\<lparr>env_rustls := clear_tls\<lparr>conn_write_all := (\<lambda>c d. (Err (Bail ''closed'' []), c))\<rparr>\<rparr>"
  have ip: "v_next_pool_ip example_start = 0x0A080002" by (simp add: example_start_def initial_server_def)
  have h: "client_config example_start waiting_session = None" "v_next_pool_ip example_start < v_pool_end example_start"
    "v_next_pool_ip_v6 example_start = None" "\<forall>c d. isl (fst (conn_write_all (env_rustls ?E) c d))"
    "writes_ok (env_rustls example_env)"
    using clear_writes_ok
    by (simp_all add: waiting_session_def Session_new_def client_config_def example_start_def initial_server_def example_env_def)
  show ?thesis using failed_push_leaks_address [OF h, of example_addr] unfolding Let_def ip by auto
qed

end
