(* ===== verification/Delivery.thy ===== *)
theory Delivery
  imports Server_Props
begin

text \<open>
  The inbound data path over whole runs of the server (\<open>route_data\<close>, \<open>spawn_data_worker\<close> and
  \<open>decrypt_and_forward\<close> of \<open>src/src/server.rs\<close>, with the replay window of \<open>src/src/replay.rs\<close>): between two key
  negotiations of a session no data packet is accepted twice, whatever else the server does.
\<close>

declare split_paired_All [simp del] split_paired_Ex [simp del]

section \<open>No packet is delivered twice\<close>

lemma position_map: "position (\<lambda>x. f x = c) xs = position (\<lambda>y. y = c) (map f xs)"
  by (induction xs) simp_all

lemma slot_by_key_id_Some:
  assumes "slot_by_key_id k s = Some (i, slot)"
  shows "position (\<lambda>x. map_option ks_key_id x = Some k) (s_slots s) = Some i" "s_slots s ! i = Some slot"
    "i < length (s_slots s)" "ks_key_id slot = k"
proof -
  show i: "position (\<lambda>x. map_option ks_key_id x = Some k) (s_slots s) = Some i" "s_slots s ! i = Some slot"
    using assms by (auto simp: slot_by_key_id_def split: option.splits)
  show "i < length (s_slots s)" "ks_key_id slot = k" using position_Some [OF i(1)] i(2) by simp_all
qed

lemma slot_by_key_id_set:
  assumes "slot_by_key_id k s = Some (i, slot)"
  shows "slot_by_key_id k' (set_slot i (slot\<lparr>ks_replay := win\<rparr>) s) =
    (if k' = k then Some (i, slot\<lparr>ks_replay := win\<rparr>) else slot_by_key_id k' s)"
proof -
  let ?f = "map_option ks_key_id" and ?t = "set_slot i (slot\<lparr>ks_replay := win\<rparr>) s"
  note i = slot_by_key_id_Some(1,2) [OF assms] and len = slot_by_key_id_Some(3) [OF assms]
    and key = slot_by_key_id_Some(4) [OF assms]
  have "map ?f (s_slots ?t) = map ?f (s_slots s)"
    using len i(2) by (simp add: set_slot_def map_update list_update_same_conv)
  then have pos: "position (\<lambda>x. ?f x = Some c) (s_slots ?t) = position (\<lambda>x. ?f x = Some c) (s_slots s)" for c
    by (simp only: position_map [of ?f])
  have nth: "s_slots ?t ! j = (if j = i then Some (slot\<lparr>ks_replay := win\<rparr>) else s_slots s ! j)" for j
    using len by (simp add: set_slot_def)
  have ne: "j \<noteq> i" if "position (\<lambda>x. ?f x = Some k') (s_slots s) = Some j" "k' \<noteq> k" for j
    using position_Some [OF that(1)] i(2) key that(2) by auto
  show ?thesis
  proof (cases "k' = k")
    case True
    then show ?thesis unfolding slot_by_key_id_def pos nth using i(1) by simp
  next
    case False
    show ?thesis
    proof (cases "position (\<lambda>x. ?f x = Some k') (s_slots s)")
      case None
      with False show ?thesis by (simp only: slot_by_key_id_def pos option.case if_False)
    next
      case (Some j)
      then have "s_slots ?t ! j = s_slots s ! j" using ne [OF Some False] nth [of j] by simp
      with Some False show ?thesis by (simp only: slot_by_key_id_def pos option.case if_False)
    qed
  qed
qed

lemma slot_by_key_id_seen [simp]: "slot_by_key_id k (s\<lparr>s_last_seen := t\<rparr>) = slot_by_key_id k s"
proof -
  have "s_slots (s\<lparr>s_last_seen := t\<rparr>) = s_slots s" by simp
  then show ?thesis unfolding slot_by_key_id_def by (simp only:)
qed

text \<open>Per key id, the packet ids the windows of a session know of.\<close>

definition windows_know :: "'c Session \<Rightarrow> (u8 \<Rightarrow> nat set) \<Rightarrow> bool" where
  "windows_know s S \<longleftrightarrow> (\<forall>k i slot. slot_by_key_id k s = Some (i, slot) \<longrightarrow> window_sim (ks_replay slot) (S k))"

lemma open_data_windows:
  assumes "windows_know s S"
  shows "\<exists>S'. windows_know (snd (open_data E dp aad s)) S' \<and> (\<forall>k. S k \<subseteq> S' k) \<and>
    (\<not> isl (fst (open_data E dp aad s)) \<longrightarrow>
       unat (dp_packet_id dp) \<notin> S (dp_key_id dp) \<and> unat (dp_packet_id dp) \<in> S' (dp_key_id dp))"
proof (cases E dp aad s rule: open_data_cases)
  case (fail e)
  then show ?thesis using assms by auto
next
  case (opened i slot pt')
  let ?k = "dp_key_id dp" and ?p = "dp_packet_id dp"
  obtain ok win where cs: "check_and_set (ks_replay slot) ?p = (ok, win)" by (rule prod.exhaust)
  have sim: "window_sim (ks_replay slot) (S ?k)" using assms opened(1) by (simp add: windows_know_def)
  define S' where "S' = S(?k := if replay_accepts (S ?k) ?p then insert (unat ?p) (S ?k) else S ?k)"
  have win: "window_sim win (S' ?k)" and ok: "ok = replay_accepts (S ?k) ?p"
    using rw.check_sim [OF sim, of ?p] rw.check_verdict [OF sim, of ?p] cs by (simp_all add: S'_def)
  have k: "windows_know (set_slot i (slot\<lparr>ks_replay := win\<rparr>) s) S'"
    using assms win by (auto simp: windows_know_def slot_by_key_id_set [OF opened(1)] S'_def)
  then have "windows_know (snd (open_data E dp aad s)) S'"
    using opened cs by (cases ok) (simp_all add: open_data_def windows_know_def)
  moreover have "\<forall>k. S k \<subseteq> S' k" by (auto simp: S'_def)
  moreover have ok if "\<not> isl (fst (open_data E dp aad s))"
    using that opened cs by (cases ok) (simp_all add: open_data_def)
  then have "\<not> isl (fst (open_data E dp aad s)) \<longrightarrow> unat ?p \<notin> S ?k \<and> unat ?p \<in> S' ?k"
    using ok by (simp add: S'_def replay_accepts_def)
  ultimately show ?thesis by blast
qed

lemma decrypt_windows:
  assumes "v_store w r = Some s" "windows_know s S" "decrypt_and_forward E r pkt w = (res, w')"
  shows "\<exists>s' S'. v_store w' r = Some s' \<and> windows_know s' S' \<and> (\<forall>k. S k \<subseteq> S' k) \<and>
    (res = Inr () \<longrightarrow> (\<exists>dp. DataPacketV2_parse pkt = Ok dp \<and>
       unat (dp_packet_id dp) \<notin> S (dp_key_id dp) \<and> unat (dp_packet_id dp) \<in> S' (dp_key_id dp)))"
proof (cases "DataPacketV2_parse pkt")
  case (Inl e)
  then show ?thesis using assms by (auto simp: decrypt_and_forward_def)
next
  case (Inr dp)
  obtain o1 s1 where o: "open_data E dp (take 8 pkt) s = (o1, s1)" by (rule prod.exhaust)
  have st: "v_store w' r = Some s1"
    using assms(1,3) Inr o
    by (auto simp: decrypt_and_forward_def bindM_def lock_def try_sess_def tun_send_def split: sum.splits if_splits)
  have ok: "\<not> isl o1" if "res = Inr ()"
    using assms(1,3) Inr o that
    by (auto simp: decrypt_and_forward_def bindM_def lock_def try_sess_def split: sum.splits)
  obtain S' where S': "windows_know s1 S'" "\<forall>k. S k \<subseteq> S' k"
    and fresh: "\<not> isl o1 \<longrightarrow> unat (dp_packet_id dp) \<notin> S (dp_key_id dp) \<and> unat (dp_packet_id dp) \<in> S' (dp_key_id dp)"
    using open_data_windows [OF assms(2), of E dp "take 8 pkt"] unfolding o fst_conv snd_conv by blast
  then show ?thesis using st S' ok Inr by (intro exI [of _ s1] exI [of _ S']) simp
qed


section \<open>The other steps leave the windows alone\<close>

text \<open>Key ids and windows of the slots.\<close>

definition slots_view :: "'c Session \<Rightarrow> (u8 \<times> ReplayWindow) option list" where
  "slots_view s = map (map_option (\<lambda>k. (ks_key_id k, ks_replay k))) (s_slots s)"

lemma slots_view_length: "slots_view s' = slots_view s \<Longrightarrow> length (s_slots s') = length (s_slots s)"
  by (drule arg_cong [where f = length]) (simp add: slots_view_def)

lemma slots_view_nth:
  "slots_view s' = slots_view s \<Longrightarrow> i < length (s_slots s) \<Longrightarrow>
   map_option (\<lambda>k. (ks_key_id k, ks_replay k)) (s_slots s' ! i) = map_option (\<lambda>k. (ks_key_id k, ks_replay k)) (s_slots s ! i)"
  by (frule slots_view_length, drule arg_cong [where f = "\<lambda>v. v ! i"]) (simp add: slots_view_def)

lemma windows_know_view:
  assumes "slots_view s' = slots_view s" "windows_know s S"
  shows "windows_know s' S"
  unfolding windows_know_def
proof (intro allI impI)
  fix k i slot'
  assume a: "slot_by_key_id k s' = Some (i, slot')"
  note i = slot_by_key_id_Some [OF a]
  have "map (map_option ks_key_id) (s_slots s') = map (map_option ks_key_id) (s_slots s)"
    using arg_cong [OF assms(1), of "map (map_option fst)"] by (simp add: slots_view_def comp_def option.map_comp)
  then have pos: "position (\<lambda>x. map_option ks_key_id x = Some k) (s_slots s) = Some i"
    using i(1) by (simp only: position_map [of "map_option ks_key_id"])
  have "i < length (s_slots s)" using i(3) slots_view_length [OF assms(1)] by simp
  then obtain slot where slot: "s_slots s ! i = Some slot" "ks_replay slot = ks_replay slot'"
    using slots_view_nth [OF assms(1), of i] i(2) by (cases "s_slots s ! i") auto
  then have "slot_by_key_id k s = Some (i, slot)" using pos by (simp add: slot_by_key_id_def)
  then have "window_sim (ks_replay slot) (S k)" using assms(2) by (simp add: windows_know_def)
  then show "window_sim (ks_replay slot') (S k)" by (simp only: slot(2))
qed

lemma view_core: "sess_core s' = sess_core s \<Longrightarrow> slots_view s' = slots_view s"
  by (simp add: sess_core_def slots_view_def)

lemma view_build: "slots_view (snd (build_data_packet A pt s)) = slots_view s"
proof (cases "active_slot s")
  case (Some slot)
  then have "slots_view (set_slot (s_active_slot_idx s) (slot\<lparr>ks_data_pid_out := n\<rparr>) s) = slots_view s" for n
    by (cases "s_active_slot_idx s < length (s_slots s)")
      (simp_all add: slots_view_def set_slot_def active_slot_def map_update list_update_same_conv list_update_beyond)
  then show ?thesis using Some by (simp add: build_data_packet_def Let_def)
qed (simp add: build_data_packet_def)

definition view_of :: "'c VpnServer \<times> 'c Session \<Rightarrow> _" where
  "view_of = (\<lambda>(w, s). (v_store w, v_next_ref w, slots_view s))"

interpretation view: lock_relation "same view_of"
proof
  fix w :: "'c VpnServer" and s s' :: "'c Session"
  show "sess_core s' = sess_core s \<Longrightarrow> same view_of (w, s) (w, s')"
    using view_core [of s' s] by (simp add: same_def view_of_def)
  show "same view_of (w, s) (w, start_rekey k tls r1 r2 s)" for k tls r1 r2
    by (simp add: same_def view_of_def slots_view_def start_rekey_def)
qed (simp_all add: same_def view_of_def view_build)

text \<open>A session is settled when it is established (or closed) and no rekey is going on. A control packet
  then installs no key.\<close>

definition settled_session :: "'c Session \<Rightarrow> bool" where
  "settled_session s \<longleftrightarrow> (s_state s = Established \<or> s_state s = Closed) \<and> s_rekey s = None"

definition quiet_step :: "'c VpnServer \<times> 'c Session \<Rightarrow> 'c VpnServer \<times> 'c Session \<Rightarrow> bool" where
  "quiet_step x y \<longleftrightarrow> (settled_session (snd x) \<longrightarrow> settled_session (snd y) \<and> same view_of x y)"

lemma quiet_step_preorder: "reflp quiet_step" "transp quiet_step"
  by (auto simp: quiet_step_def same_def intro!: reflpI transpI)

text \<open>The three parts of a session that matter here.\<close>

definition settled_view :: "'c Session \<Rightarrow> _" where
  "settled_view s = (s_state s, s_rekey s, slots_view s)"

lemma quiet_step_same:
  "settled_view s' = settled_view s \<Longrightarrow> v_store w' = v_store w \<Longrightarrow> v_next_ref w' = v_next_ref w \<Longrightarrow> quiet_step (w, s) (w', s')"
  by (simp add: quiet_step_def settled_session_def settled_view_def same_def view_of_def)

lemma settled_view_ops [simp]:
  "settled_view (drain_plaintext n s) = settled_view s" "settled_view (snd (make_control k p s)) = settled_view s"
  "settled_view (snd (wrap_for_wire E w inner s)) = settled_view s" "settled_view (record_sent q b t s) = settled_view s"
  "settled_view (process_acks acks s) = settled_view s" "settled_view (note_received q t s) = settled_view s"
  "settled_view (s\<lparr>s_tls := c\<rparr>) = settled_view s" "settled_view (s\<lparr>s_last_seen := d\<rparr>) = settled_view s"
  "settled_view (s\<lparr>s_pending_acks := e\<rparr>) = settled_view s" "settled_view (s\<lparr>s_tls_auth_replay := f\<rparr>) = settled_view s"
  by (auto simp: settled_view_def slots_view_def drain_plaintext_def make_control_def alloc_packet_id_def
      wrap_for_wire_def next_tls_auth_pid_def record_sent_def process_acks_def note_received_def Let_def
      case_prod_beta split: option.split)

lemma quiet_on: "(\<And>s. settled_view (f s) = settled_view s) \<Longrightarrow> keeps quiet_step (on_sess f)"
  by (rule keeps_on_sess) (simp add: quiet_step_same)

lemma quiet_call: "(\<And>s. settled_view (snd (f s)) = settled_view s) \<Longrightarrow> keeps quiet_step (call_sess f)"
  by (rule keeps_call_sess) (simp add: quiet_step_same)

lemma quiet_try: "(\<And>s. settled_view (snd (f s)) = settled_view s) \<Longrightarrow> keeps quiet_step (try_sess f)"
  by (rule keeps_try_sess) (simp add: quiet_step_same)

lemma quiet_close: "keeps quiet_step (on_sess (\<lambda>s. s\<lparr>s_state := Closed\<rparr>))"
  by (rule keeps_on_sess) (simp add: quiet_step_def settled_session_def same_def view_of_def slots_view_def)

lemma quiet_drive: "keeps quiet_step (drive_control_plane E addr)"
proof (intro keeps_drive_control_plane quiet_step_preorder)
  have "keeps quiet_step drive_established"
    unfolding drive_established_def
    by (intro keeps_intros quiet_step_preorder, split Pop.split)
      (auto intro!: keeps_intros quiet_step_preorder quiet_on quiet_close)
  then have e: "quiet_step (w, s) (snd (drive_established (w, s)))" for w :: "'a VpnServer" and s
    unfolding keeps_def by blast
  have "quiet_step (w, s) (snd ((case s_state s of KeyExchange \<Rightarrow> drive_key_exchange E
      | PushPending \<Rightarrow> drive_push_pending E addr | Established \<Rightarrow> drive_established | _ \<Rightarrow> returnM False) (w, s)))"
    for w :: "'a VpnServer" and s
    using e [of w s] by (cases "s_state s") (auto simp: quiet_step_def settled_session_def same_def)
  then show "keeps quiet_step (drive_step E addr)"
    unfolding drive_step_def by (rule keeps_with_state_at)
qed

lemma quiet_send: "keeps quiet_step (send_sess E wire)"
  unfolding send_sess_def
  by (intro keeps_intros keeps_try_server) (simp add: quiet_step_same Transport_send_def Let_def)

lemma quiet_flush: "keeps quiet_step (flush_outgoing E)"
proof -
  have t: "keeps quiet_step (send_and_track E pkt)" for pkt
    unfolding send_and_track_def Let_def
    by (intro keeps_intros quiet_step_preorder quiet_try quiet_on quiet_send) simp_all
  have "keeps quiet_step (send_chunk E k chunk)" for k chunk
    unfolding send_chunk_def by (intro keeps_intros quiet_step_preorder quiet_call t) simp
  then show ?thesis
    unfolding flush_outgoing_def sess_take_outgoing_def Let_def
    by (intro keeps_intros quiet_step_preorder quiet_call quiet_try quiet_on quiet_send) (simp_all add: case_prod_beta)
qed

text \<open>A packet of a settled session leaves the slots alone.\<close>

definition harmless :: "('c, 'a) locked \<Rightarrow> bool" where
  "harmless m \<longleftrightarrow> (\<forall>st. settled_session (snd st) \<longrightarrow> same view_of st (snd (m st)))"

lemma harmless_quiet: "keeps quiet_step m \<Longrightarrow> harmless m"
  by (simp add: keeps_def quiet_step_def harmless_def)

lemma harmless_then:
  assumes "keeps quiet_step m" "harmless n"
  shows "harmless (thenM m n)"
  unfolding harmless_def
proof (intro allI impI)
  fix st :: "'a VpnServer \<times> 'a Session"
  assume s: "settled_session (snd st)"
  obtain x y where m: "m st = (x, y)" by (rule prod.exhaust)
  have "settled_session (snd y)" "same view_of st y" using keepsD [OF assms(1) m] s by (simp_all add: quiet_step_def)
  then show "same view_of st (snd (thenM m n st))"
    using m assms(2) by (cases x) (simp_all add: thenM_def bindM_def harmless_def same_def)
qed

lemma settled_packet:
  assumes "cp_key_id ctrl AND 7 = cp_key_id ctrl"
  shows "harmless (handle_session_packet E addr ctrl p)"
proof -
  have f: "keeps quiet_step (sess_feed E payload)" for payload
    unfolding sess_feed_def by (intro quiet_try) (simp add: case_prod_beta Let_def)
  have k: "keeps quiet_step (on_sess (\<lambda>s. if s_state s = Handshaking \<and> b s then g s else s))" for b g
    by (rule keeps_on_sess) (simp add: quiet_step_def settled_session_def same_def)
  have "keeps quiet_step (thenM (sess_feed E (cp_payload ctrl))
      (thenM (on_sess (\<lambda>s. if s_state s = Handshaking \<and> \<not> is_handshaking (env_rustls E) (s_tls s)
                             then finalize_keys (env_rustls E) s else s))
        (thenM (drive_control_plane E addr) (flush_outgoing E))))"
    by (intro keeps_intros quiet_step_preorder f k quiet_drive quiet_flush)
  then have v: "harmless (handle_control_v1 E addr ctrl)"
    by (auto simp: harmless_def handle_control_v1_def with_state_def settled_session_def dest!: harmless_quiet
        split: option.split)
  have r: "harmless (handle_soft_reset E ctrl)"
    using view.soft_resets [OF assms, of E] by (simp add: harmless_def keeps_def)
  have "harmless (case op of AckV1 \<Rightarrow> returnM () | ControlV1 \<Rightarrow> handle_control_v1 E addr ctrl
    | ControlSoftResetV1 \<Rightarrow> handle_soft_reset E ctrl | _ \<Rightarrow> returnM ())" for op
    using v r by (cases op) (auto simp: harmless_def same_def)
  moreover have "keeps quiet_step (case p of Some pid \<Rightarrow>
        try_sess (\<lambda>s. let (ok, win) = check_and_set (s_tls_auth_replay s) pid; s = s\<lparr>s_tls_auth_replay := win\<rparr>
                  in (if ok then Ok () else Err (Bail ''tls-auth replay rejected'' [unat pid]), s))
      | None \<Rightarrow> returnM ())"
    by (intro keeps_intros quiet_step_preorder quiet_try) (simp add: case_prod_beta Let_def)
  ultimately show ?thesis
    unfolding handle_session_packet_def
    by (intro harmless_then quiet_on) (simp_all split: option.split)
qed

subsection \<open>Every step but the session's own worker\<close>

definition has_view :: "nat \<Rightarrow> (u8 \<times> ReplayWindow) option list \<Rightarrow> 'c VpnServer \<Rightarrow> bool" where
  "has_view r V w \<longleftrightarrow> store_ok w \<and> (\<exists>s. v_store w r = Some s \<and> slots_view s = V)"

lemma has_view_put: "has_view r V w \<Longrightarrow> v_store w q = Some s \<Longrightarrow> same view_of (w, s) st \<Longrightarrow> has_view r V (put q st)"
  by (cases st) (auto simp: has_view_def same_def view_of_def store_ok_def)

lemma has_view_other:
  "has_view r V w \<Longrightarrow> q \<noteq> r \<Longrightarrow> v_store w q = Some s \<Longrightarrow> lifted Q (w, s) st \<Longrightarrow> has_view r V (put q st)"
  by (cases st) (auto simp: has_view_def store_ok_def)

interpretation settled_run: task_invariant "has_view r V" for r V
proof
  fix w :: "'c VpnServer" and a q and s :: "'c Session" and E and m :: "('c, unit) locked"
  assume "has_view r V w" "v_store w q = Some s" and t: "task E m"
  moreover have "same view_of (w, s) (snd (m (w, s)))"
    using task_keeps [OF t view.lock_relation_axioms] by (simp add: keeps_def)
  ultimately show "has_view r V (put q (snd (m (w, s))))" using has_view_put by blast
next
  fix w :: "'c VpnServer" and a q tr and s :: "'c Session"
  assume "has_view r V w"
  then show "has_view r V (register_session a q s w)"
    by (auto simp: has_view_def store_ok_def register_session_def spawn_data_worker_def Let_def)
qed (auto simp: has_view_def store_ok_def remove_ids_def)

lemma other_worker:
  assumes "has_view r V w" "q \<noteq> r"
  shows "has_view r V (worker_step E q w)"
proof (cases "v_inbox w q")
  case (Cons raw rest)
  let ?w = "w\<lparr>v_inbox := (v_inbox w)(q := rest)\<rparr>"
  have w: "has_view r V ?w" by (rule settled_run.queued(2) [OF assms(1)])
  have "has_view r V (snd (decrypt_and_forward E q raw ?w))"
  proof (cases "DataPacketV2_parse raw")
    case (Inr dp)
    let ?m = "try_sess (open_data E dp (take 8 raw))"
    have "has_view r V (snd (lock q ?m ?w))"
      by (rule settled_run.locked [OF w], rule has_view_other [OF w assms(2), where Q = "\<lambda>_ _. True"])
        (simp_all add: try_sess_def case_prod_beta Let_def)
    then show ?thesis using Inr settled_run.queued(1)
      by (auto simp: decrypt_and_forward_def bindM_def tun_send_def case_prod_beta split: sum.split)
  qed (simp add: decrypt_and_forward_def w)
  then show ?thesis using Cons by (simp add: worker_step_def)
qed (simp add: worker_step_def assms(1))

definition data_packet :: "bytes \<Rightarrow> bool" where
  "data_packet pkt \<longleftrightarrow> pkt \<noteq> [] \<and>
     (case OpCode_from_u8 (drop_bit 3 (pkt ! 0)) of Inr op \<Rightarrow> is_data op | Inl _ \<Rightarrow> False)"

definition settled :: "nat \<Rightarrow> 'c VpnServer \<Rightarrow> bool" where
  "settled r w = (case v_store w r of Some s \<Rightarrow> settled_session s | None \<Rightarrow> False)"

lemma receive_view:
  assumes v: "has_view r V w" and c: "v_sessions w a = Some r \<longrightarrow> data_packet pkt \<or> settled r w"
  shows "has_view r V (receive_packet E a tr pkt w)"
proof -
  have "has_view r V (snd (handle_control_packet E a p q tr w))" if "\<not> data_packet pkt" for p q
  proof (cases "ControlPacket_parse p")
    case (Inr ctrl)
    note key = parsed_key_id [OF Inr]
    show ?thesis
    proof (cases "v_sessions w a")
      case None
      then show ?thesis using Inr v settled_run.created [OF v, of a] by (auto simp: handle_control_packet_def)
    next
      case (Some x)
      have "has_view r V (put x (snd (handle_session_packet E a ctrl q (w, s))))" if s: "v_store w x = Some s" for s
      proof (cases "x = r")
        case True
        then have "settled_session s" using c Some s \<open>\<not> data_packet pkt\<close> by (simp add: settled_def)
        then have "same view_of (w, s) (snd (handle_session_packet E a ctrl q (w, s)))"
          using settled_packet [OF key, of E a q] by (simp add: harmless_def)
        then show ?thesis by (rule has_view_put [OF v s])
      qed (rule has_view_other [OF v _ s anything.lifted_packet [OF key]])
      then have "has_view r V (snd (lock x (handle_session_packet E a ctrl q) w))" by (rule settled_run.locked [OF v])
      then show ?thesis using Inr Some by (simp add: handle_control_packet_def domIff)
    qed
  qed (simp add: handle_control_packet_def v)
  then show ?thesis using v settled_run.routed_data [OF v]
    by (auto simp: receive_packet_def data_packet_def Let_def split: sum.split option.split)
qed

section \<open>Runs\<close>

text \<open>The packets the worker of session \<open>r\<close> accepts during a run, in order.\<close>

definition worker_accepts :: "'c env \<Rightarrow> nat \<Rightarrow> 'c VpnServer \<Rightarrow> bytes list" where
  "worker_accepts E r w =
     (case v_inbox w r of
        [] \<Rightarrow> []
      | pkt # rest \<Rightarrow>
          if fst (decrypt_and_forward E r pkt (w\<lparr>v_inbox := (v_inbox w)(r := rest)\<rparr>)) = Inr () then [pkt] else [])"

fun deliveries :: "nat \<Rightarrow> ('c env \<times> event) list \<Rightarrow> 'c VpnServer \<Rightarrow> bytes list" where
  "deliveries r [] w = []"
| "deliveries r ((E, ev) # evs) w =
     (if ev = Worker r then worker_accepts E r w else []) @ deliveries r evs (server_event E ev w)"

text \<open>No control packet of the session's client arrives while its keys are being negotiated.\<close>

fun no_negotiation :: "nat \<Rightarrow> ('c env \<times> event) list \<Rightarrow> 'c VpnServer \<Rightarrow> bool" where
  "no_negotiation r [] w = True"
| "no_negotiation r ((E, ev) # evs) w =
     ((case ev of Receive a tr pkt \<Rightarrow> v_sessions w a = Some r \<longrightarrow> data_packet pkt \<or> settled r w | _ \<Rightarrow> True) \<and>
      no_negotiation r evs (server_event E ev w))"

definition data_ids :: "bytes \<Rightarrow> u8 \<times> u32" where
  "data_ids pkt = (case DataPacketV2_parse pkt of Inr dp \<Rightarrow> (dp_key_id dp, dp_packet_id dp) | Inl e \<Rightarrow> (0, 0))"

lemma other_step:
  assumes "has_view r V w" "ev \<noteq> Worker r" "no_negotiation r [(E, ev)] w"
  shows "has_view r V (server_event E ev w)"
proof -
  consider (packet) a tr p where "ev = Receive a tr p" | (worker) q where "ev = Worker q" "q \<noteq> r"
    | (other) "\<And>a tr p. ev \<noteq> Receive a tr p" "\<And>q. ev \<noteq> Worker q"
    using assms(2) by blast
  then show ?thesis
  proof cases
    case packet
    then show ?thesis using assms(3) receive_view [OF assms(1), of a p] by simp
  next
    case worker
    then show ?thesis using other_worker [OF assms(1)] by simp
  next
    case other
    then show ?thesis by (intro settled_run.other_event assms(1))
  qed
qed

lemma own_worker:
  assumes "store_ok w" "v_store w r = Some s" "windows_know s S"
  shows "\<exists>s' S'. store_ok (worker_step E r w) \<and> v_store (worker_step E r w) r = Some s' \<and> windows_know s' S' \<and>
    (\<forall>k. S k \<subseteq> S' k) \<and> (\<forall>pkt \<in> set (worker_accepts E r w).
      unat (snd (data_ids pkt)) \<notin> S (fst (data_ids pkt)) \<and> unat (snd (data_ids pkt)) \<in> S' (fst (data_ids pkt)))"
proof (cases "v_inbox w r")
  case Nil
  then show ?thesis using assms by (auto simp: worker_step_def worker_accepts_def)
next
  case (Cons pkt rest)
  let ?w = "w\<lparr>v_inbox := (v_inbox w)(r := rest)\<rparr>"
  obtain res w' where d: "decrypt_and_forward E r pkt ?w = (res, w')" by (rule prod.exhaust)
  have "v_store ?w r = Some s" using assms(2) by simp
  from decrypt_windows [OF this assms(3) d] obtain s' S' where
    s': "v_store w' r = Some s'" "windows_know s' S'" "\<forall>k. S k \<subseteq> S' k"
    and ok: "res = Inr () \<longrightarrow> unat (snd (data_ids pkt)) \<notin> S (fst (data_ids pkt)) \<and>
               unat (snd (data_ids pkt)) \<in> S' (fst (data_ids pkt))"
    unfolding data_ids_def by (metis (no_types, lifting) fst_conv snd_conv sum.case(2))
  have st: "worker_step E r w = w'" "worker_accepts E r w = (if res = Inr () then [pkt] else [])"
    using Cons d by (simp_all add: worker_step_def worker_accepts_def)
  have "store_ok w'" using store.worked [OF assms(1), of E r] st(1) by simp
  with s' ok show ?thesis by (intro exI [of _ s'] exI [of _ S']) (simp add: st)
qed

lemma deliveries_fresh:
  assumes "store_ok w" "v_store w r = Some s" "windows_know s S" "no_negotiation r evs w"
  shows "distinct (map data_ids (deliveries r evs w)) \<and>
    (\<forall>pkt \<in> set (deliveries r evs w). unat (snd (data_ids pkt)) \<notin> S (fst (data_ids pkt)))"
  using assms
proof (induction r evs w arbitrary: s S rule: deliveries.induct)
  case (2 r E ev evs w)
  have nn: "no_negotiation r evs (server_event E ev w)" "no_negotiation r [(E, ev)] w" using "2.prems"(4) by simp_all
  show ?case
  proof (cases "ev = Worker r")
    case True
    from own_worker [OF "2.prems"(1-3), of E] obtain s' S' where
      s': "store_ok (worker_step E r w)" "v_store (worker_step E r w) r = Some s'" "windows_know s' S'" "\<forall>k. S k \<subseteq> S' k"
      and acc: "\<forall>pkt \<in> set (worker_accepts E r w).
        unat (snd (data_ids pkt)) \<notin> S (fst (data_ids pkt)) \<and> unat (snd (data_ids pkt)) \<in> S' (fst (data_ids pkt))"
      by blast
    note IH = "2.IH" [of s' S', unfolded True server_event.simps, OF s'(1-3) nn(1) [unfolded True server_event.simps]]
    have one: "distinct (map data_ids (worker_accepts E r w))"
      by (simp add: worker_accepts_def split: list.split)
    have "data_ids p \<noteq> data_ids q" if "p \<in> set (worker_accepts E r w)" "q \<in> set (deliveries r evs (worker_step E r w))" for p q
      using acc IH that by metis
    then show ?thesis using IH one acc s'(4) True by (auto simp: image_iff) blast+
  next
    case False
    have "has_view r (slots_view s) w" using "2.prems"(1,2) by (simp add: has_view_def)
    from other_step [OF this False nn(2)] obtain s' where
      s': "store_ok (server_event E ev w)" "v_store (server_event E ev w) r = Some s'" "slots_view s' = slots_view s"
      by (auto simp: has_view_def)
    from "2.IH" [OF s'(1,2) windows_know_view [OF s'(3) "2.prems"(3)] nn(1)] show ?thesis using False by simp
  qed
qed simp

lemma keys_ok_windows:
  assumes "keys_ok s"
  obtains S where "windows_know s S"
proof -
  have "\<exists>seen. window_sim (ks_replay slot) seen" if "slot_by_key_id k s = Some (i, slot)" for k i slot
  proof -
    have "slot_ok slot" using slot_by_key_id_Some(2,3) [OF that] keys_ok_nth [OF assms] by blast
    then show ?thesis by (simp add: slot_ok_def)
  qed
  then have "\<forall>k. \<exists>seen. \<forall>i slot. slot_by_key_id k s = Some (i, slot) \<longrightarrow> window_sim (ks_replay slot) seen"
    by (metis option.inject prod.inject)
  from choice [OF this] obtain S where "windows_know s S" unfolding windows_know_def by blast
  then show thesis by (rule that)
qed

text \<open>For the witness: the run in which a packet arrives, is taken up, arrives again and is taken up.\<close>

definition replay_run :: "'c env \<Rightarrow> SocketAddr \<Rightarrow> nat \<Rightarrow> bytes \<Rightarrow> ('c env \<times> event) list" where
  "replay_run E addr r pkt =
     [(E, Receive addr (Udp addr) pkt), (E, Worker r), (E, Receive addr (Udp addr) pkt), (E, Worker r)]"

lemma data_header_packet: "data_packet (data_header k p pid @ ct)"
proof -
  have "OpCode_from_u8 (drop_bit 3 (op_byte DataV2 k)) = Ok DataV2" by (simp only: op_byte_op OpCode_from_as)
  then show ?thesis by (simp add: data_packet_def data_header_def op_byte_def is_data_def)
qed

lemma forward_queues: "v_inbox (snd (decrypt_and_forward E r pkt w)) = v_inbox w"
  "v_data_routes (snd (decrypt_and_forward E r pkt w)) = v_data_routes w"
  by (simp_all add: decrypt_and_forward_def bindM_def lock_def try_sess_def tun_send_def case_prod_beta Let_def
      split: sum.split option.split)

lemma replay_run_deliveries:
  assumes "k AND 7 = k" "p < 2 ^ 24" "v_data_routes w p = Some r" "v_inbox w r = []"
  shows "\<exists>w'. v_inbox w' r = [data_header k p pid @ ct] \<and>
    deliveries r (replay_run E addr r (data_header k p pid @ ct)) w =
      worker_accepts E r (route_data (data_header k p pid @ ct) w) @ worker_accepts E r w'"
proof -
  let ?pkt = "data_header k p pid @ ct"
  note parse = parse_data_header [OF assms(1,2), of pid ct]
  have rd: "route_data ?pkt x = x\<lparr>v_inbox := (v_inbox x)(r := v_inbox x r @ [?pkt])\<rparr>"
    if "v_data_routes x p = Some r" for x :: "'a VpnServer"
    using parse that by (simp add: route_data_def)
  let ?w1 = "worker_step E r (route_data ?pkt w)"
  have "v_inbox ?w1 r = []" "v_data_routes ?w1 p = Some r"
    using assms(3,4) by (simp_all add: rd worker_step_def forward_queues)
  then have "v_inbox (route_data ?pkt ?w1) r = [?pkt]" by (simp add: rd)
  then show ?thesis
    by (intro exI [of _ "route_data ?pkt ?w1"]) (simp add: replay_run_def receive_data_header)
qed

text \<open>C3: from any reachable state on, over any events with any environments, the worker of a session
  accepts no two data packets with the same key id and packet id, as long as no control packet of
  its client arrives while keys are being negotiated: no tunnelled packet is delivered twice under
  one key, however packets are replayed, reordered and interleaved with everything else.\<close>

theorem data_never_delivered_twice:
  assumes "started os K H cfg h = (Inr w0, h')" and "reaches w0 w" and "v_store w r = Some s"
    and "no_negotiation r evs w"
  shows "distinct (map data_ids (deliveries r evs w))"
proof -
  have "store_ok w" using store.reachable [OF assms(2)] started_runs(1) [OF assms(1)] .
  have "all_sessions keys_ok w" using keys.invariant.reachable [OF assms(2)] started_runs(3) [OF assms(1)] .
  then have "keys_ok s" using assms(3) by (simp add: all_sessions_def)
  then obtain S where "windows_know s S" by (rule keys_ok_windows)
  from deliveries_fresh [OF \<open>store_ok w\<close> assms(3) this assms(4)] show ?thesis ..
qed

theorem data_never_delivered_twice_witness:
  "\<exists>pkt. no_negotiation 0 (replay_run example_env example_addr 0 pkt) example_connected \<and>
     deliveries 0 (replay_run example_env example_addr 0 pkt) example_connected = [pkt]"
proof -
  obtain s kd where s: "v_store example_connected 0 = Some s" "s_slots s = [Some (new_slot 0 kd), None]"
    "v_data_routes example_connected = [1 \<mapsto> 0]" "v_inbox example_connected = (\<lambda>_. [])"
    by (rule example_connected_session) blast
  let ?E = example_env and ?c = "ks_cipher (new_slot 0 kd)" and ?w = example_connected
  have E: "env_crypto ?E = example_api" "env_tun_open ?E" by (simp_all add: example_env_def)
  obtain ct where ct: "DataCipher_seal example_api (DataCipher_mirror ?c) 1 (data_header 0 1 1) [69, 0] = Ok ct"
    by (simp add: DataCipher_seal_def example_api_def ok_or_def TAG_SIZE_def Let_def)
  let ?pkt = "data_header 0 1 1 @ ct" and ?evs = "replay_run ?E example_addr 0 (data_header 0 1 1 @ ct)"
  let ?dp = "\<lparr>dp_key_id = 0, dp_peer_id = 1, dp_packet_id = 1, dp_ciphertext = ct\<rparr>"
  have parse: "DataPacketV2_parse ?pkt = Ok ?dp" by (rule parse_data_header) simp_all
  have head: "take 8 ?pkt = data_header 0 1 1" by (simp add: data_header_def)
  have slot: "slot_by_key_id (dp_key_id ?dp) s = Some (0, new_slot 0 kd)"
    by (simp add: slot_by_key_id_def s(2) new_slot_def)
  have fresh: "fst (check_and_set (ks_replay (new_slot 0 kd)) (dp_packet_id ?dp))"
    by (simp add: new_slot_def check_and_set_def ReplayWindow_new_def)
  have "DataCipher_open (env_crypto ?E) ?c (dp_packet_id ?dp) (data_header 0 1 1) (dp_ciphertext ?dp) = Ok [69, 0]"
    using open_seal(1) [OF example_api_law ct] by (simp add: E)
  from open_data_Ok [OF slot this fresh] obtain s' where o: "open_data ?E ?dp (take 8 ?pkt) s = (Ok [69, 0], s')"
    unfolding head by blast
  have first: "worker_accepts ?E 0 (route_data ?pkt ?w) = [?pkt]"
    using s(1,3,4) parse o
    by (simp add: worker_accepts_def route_data_def decrypt_and_forward_def bindM_def lock_def try_sess_def
        tun_send_def E PING_PAYLOAD_def)
  obtain w' where w': "v_inbox w' 0 = [?pkt]"
    "deliveries 0 ?evs ?w = worker_accepts ?E 0 (route_data ?pkt ?w) @ worker_accepts ?E 0 w'"
    using replay_run_deliveries [of 0 1 ?w 0 1 ct ?E example_addr] s(3,4) by auto
  have nn: "no_negotiation 0 ?evs ?w" by (simp add: replay_run_def data_header_packet)
  have "distinct (map data_ids (deliveries 0 ?evs ?w))"
    by (rule data_never_delivered_twice [OF example_started [of "({#}, Map.empty)"] example_reaches s(1) nn])
  then have "deliveries 0 ?evs ?w = [?pkt]"
    using w'(1) by (auto simp: w'(2) first) (auto simp: worker_accepts_def split: if_splits)
  with nn show ?thesis by blast
qed

end
