(* ===== verification/Server_Tasks.thy ===== *)
theory Server_Tasks
  imports Delivery
begin

text \<open>
  Properties of the single tasks and guards of the server: the idle reaper, the envelope check in
  front of the control channel, the HARD_RESET of a known peer, the address pool, fragmentation of
  TLS output, and the forwarding of packets from the TUN device.
\<close>

section \<open>The idle reaper\<close>

definition idle :: "'c env \<Rightarrow> 'c VpnServer \<Rightarrow> SocketAddr \<Rightarrow> bool" where
  "idle E w a \<longleftrightarrow> (\<exists>r s. v_sessions w a = Some r \<and> v_store w r = Some s \<and>
     from_secs (unat (cfg_keepalive_timeout (v_cfg w))) \<le> duration_since (env_now E) (s_last_seen s))"

lemma reap_view:
  "v_store (reap E a w) = v_store w" "v_cfg (reap E a w) = v_cfg w"
  "v_sessions (reap E a w) = (if idle E w a then (v_sessions w)(a := None) else v_sessions w)"
  "v_routes (reap E a w) ip = None \<or> v_routes (reap E a w) ip = v_routes w ip"
  by (auto simp: reap_def remove_ids_def idle_def split: option.splits IpAddr.splits)

lemma reap_frees:
  assumes "idle E w a" "assigned w a = Some ip"
  shows "v_routes (reap E a w) ip = None"
proof -
  from assms(1) obtain r s where s: "v_sessions w a = Some r" "v_store w r = Some s"
    "from_secs (unat (cfg_keepalive_timeout (v_cfg w))) \<le> duration_since (env_now E) (s_last_seen s)"
    by (auto simp: idle_def)
  with assms(2) have "s_assigned_ip s = Some (V4 ip)"
    by (auto simp: holds_def session_ip_def split: option.splits IpAddr.splits)
  with s show ?thesis by (simp add: reap_def remove_ids_def)
qed

lemma reap_idle: "idle E (reap E a w) b \<longleftrightarrow> idle E w b \<and> b \<noteq> a"
  by (auto simp: idle_def [of E "reap E a w"] reap_view) (auto simp: idle_def)

lemma reap_assigned: "assigned (reap E a w) b = (if b = a \<and> idle E w a then None else assigned w b)"
  by (simp add: holds_def reap_view)

lemma reaper_sessions:
  "v_sessions (reaper_tick E addrs w) a = (if a \<in> set addrs \<and> idle E w a then None else v_sessions w a)"
proof (induction addrs arbitrary: w)
  case (Cons b addrs)
  then show ?case by (simp add: reaper_tick_def reap_idle reap_view)
qed (simp add: reaper_tick_def)

lemma reaper_routes_shrink: "v_routes w ip = None \<Longrightarrow> v_routes (reaper_tick E addrs w) ip = None"
proof (induction addrs arbitrary: w)
  case (Cons b addrs)
  then show ?case using reap_view(4) [of E b w ip] by (auto simp: reaper_tick_def)
qed (simp add: reaper_tick_def)

lemma reaper_frees:
  "a \<in> set addrs \<Longrightarrow> idle E w a \<Longrightarrow> assigned w a = Some ip \<Longrightarrow> v_routes (reaper_tick E addrs w) ip = None"
proof (induction addrs arbitrary: w)
  case (Cons b addrs)
  show ?case
  proof (cases "b = a")
    case True
    then show ?thesis using reaper_routes_shrink [OF reap_frees [OF Cons.prems(2,3)]] by (simp add: reaper_tick_def)
  next
    case False
    then show ?thesis using Cons by (simp add: reaper_tick_def reap_idle reap_assigned)
  qed
qed simp

lemma reaper_reaches: "reaches w0 w \<Longrightarrow> reaches w0 (reaper_tick E addrs w)"
proof (induction addrs arbitrary: w)
  case (Cons b addrs)
  then show ?case using reaches.step [OF Cons.prems, of E "Reap b"] by (simp add: reaper_tick_def)
qed (simp add: reaper_tick_def)



section \<open>The envelope guards the control channel\<close>

text \<open>What the peer that holds the pre-shared key can put on the wire.\<close>

definition sealed_by_peer :: "'c env \<Rightarrow> 'c VpnServer \<Rightarrow> bytes \<Rightarrow> bool" where
  "sealed_by_peer E w pkt \<longleftrightarrow>
     (case v_tls_crypt w of
        Some tc \<Rightarrow> \<exists>inner pid ts. TlsCryptKey_wrap (env_crypto E) (TlsCryptKey_mirror tc) inner pid ts = Ok pkt
      | None \<Rightarrow>
          (case v_tls_auth w of
             Some ta \<Rightarrow> \<exists>inner pid ts. TlsAuthKey_wrap (env_crypto E) (TlsAuthKey_mirror ta) inner pid ts = Ok pkt
           | None \<Rightarrow> True))"

lemma unwrap_control_sealed:
  assumes "\<not> sealed_by_peer E w pkt"
  shows "\<exists>e. unwrap_control E w pkt = Inl e"
proof (cases "v_tls_crypt w")
  case None
  then obtain ta where ta: "v_tls_auth w = Some ta" using assms by (cases "v_tls_auth w") (simp_all add: sealed_by_peer_def)
  then have "TlsAuthKey_unwrap (env_crypto E) ta pkt \<noteq> Ok x" for x
    using assms None tauth.unwrap_sound [of "env_crypto E" ta pkt "fst x" "snd x"] by (auto simp: sealed_by_peer_def)
  then obtain e where "TlsAuthKey_unwrap (env_crypto E) ta pkt = Inl e" by (metis sum.exhaust)
  then show ?thesis using None ta by (simp add: unwrap_control_def)
next
  case (Some tc)
  then have "TlsCryptKey_unwrap (env_crypto E) tc pkt \<noteq> Ok x" for x
    using assms tcrypt.unwrap_sound [of "env_crypto E" tc pkt "fst x" "snd x"] by (auto simp: sealed_by_peer_def)
  then obtain e where "TlsCryptKey_unwrap (env_crypto E) tc pkt = Inl e" by (metis sum.exhaust)
  then show ?thesis using Some by (simp add: unwrap_control_def)
qed

text \<open>C6: with an envelope key configured, a packet the holder of that key did not produce never
  reaches the control channel: it changes nothing, or (when its opcode says it is data) is only put into the
  queue of a data worker, where it must pass the data cipher.\<close>

theorem unauthenticated_control_ignored:
  assumes "\<not> sealed_by_peer E w pkt"
  shows "receive_packet E addr tr pkt w = w \<or>
    (\<exists>r. v_data_routes w (dp_peer_id (projr (DataPacketV2_parse pkt))) = Some r \<and>
       receive_packet E addr tr pkt w = w\<lparr>v_inbox := (v_inbox w)(r := v_inbox w r @ [pkt])\<rparr>)"
proof -
  obtain e where "unwrap_control E w pkt = Inl e" using unwrap_control_sealed [OF assms] by blast
  then have "receive_packet E addr tr pkt w = w \<or> receive_packet E addr tr pkt w = route_data pkt w"
    by (simp add: receive_packet_def split: sum.split)
  moreover have "route_data pkt w = w \<or> (\<exists>r. v_data_routes w (dp_peer_id (projr (DataPacketV2_parse pkt))) = Some r \<and>
      route_data pkt w = w\<lparr>v_inbox := (v_inbox w)(r := v_inbox w r @ [pkt])\<rparr>)"
    by (simp add: route_data_def split: sum.split option.split)
  ultimately show ?thesis by metis
qed

definition sealed_server :: "unit VpnServer" where
  "sealed_server =
     keyed_server\<lparr>v_tls_crypt := Some (TlsCryptKey_from_static_key_server (map word_of_nat [0..<256]))\<rparr>"

theorem unauthenticated_control_ignored_witness:
  "\<not> sealed_by_peer unit_env sealed_server [56, 1, 2] \<and>
   v_sessions (receive_packet unit_env example_addr (Udp example_addr) [56, 1, 2] sealed_server) =
     v_sessions sealed_server \<and>
   v_store (receive_packet unit_env example_addr (Udp example_addr) [56, 1, 2] sealed_server) =
     v_store sealed_server"
proof -
  have h: "\<not> sealed_by_peer unit_env sealed_server [56, 1, 2]"
    using tcrypt.wrap_long [of _ _ _ _ _ "[56, 1, 2]"] by (fastforce simp: sealed_by_peer_def sealed_server_def)
  show ?thesis
    using h unauthenticated_control_ignored [OF h, of example_addr "Udp example_addr"] by auto
qed

section \<open>HARD_RESET of a known peer\<close>



section \<open>From the TUN device to a client\<close>

text \<open>C9: an IPv4 packet from the TUN device for a routed address is sent as one data packet to the
  transport of the session behind the route, and to nobody else; its client, holding the mirrored keys, opens
  it to exactly that IP packet.\<close>

theorem tun_packet_reaches_client:
  assumes "aead_law (env_crypto E)" and "pkt \<noteq> []" and "drop_bit 4 (pkt ! 0) = 4" and "20 \<le> length pkt"
    and "v_routes w (from_be_bytes (subslice pkt 16 20)) = Some a" and "v_sessions w a = Some r"
    and "v_store w r = Some s" and "active_slot s = Some slot" and "ks_key_id slot AND 7 = ks_key_id slot"
    and "s_peer_id s < 2 ^ 24" and "build_data_packet (env_crypto E) pkt s = (Ok bs, s')"
  shows "v_wire (snd (forward_tun_to_client E pkt w)) =
      v_wire w @ [(s_transport s, bs, env_send E (length (v_wire w)))] \<and>
    (\<exists>ct. DataPacketV2_parse bs = Ok \<lparr>dp_key_id = ks_key_id slot, dp_peer_id = s_peer_id s,
        dp_packet_id = ks_data_pid_out slot, dp_ciphertext = ct\<rparr> \<and>
      DataCipher_open (env_crypto E) (DataCipher_mirror (ks_cipher slot)) (ks_data_pid_out slot) (take 8 bs) ct = Ok pkt)"
proof -
  have tr: "s_transport s' = s_transport s"
    using assms(8,11) by (auto simp: build_data_packet_def Let_def set_slot_def)
  have "tun_destination w pkt = Some a" using assms(2-5) by (simp add: tun_destination_def)
  then have wire: "v_wire (snd (forward_tun_to_client E pkt w)) =
      v_wire w @ [(s_transport s, bs, env_send E (length (v_wire w)))]"
    using assms(6-8,11) tr
    by (simp add: forward_tun_to_client_def lock_def bindM_def try_sess_def send_sess_def try_server_def
        Transport_send_def Let_def)
  show ?thesis using wire built_data_readable [OF assms(1,8-11)] by blast
qed

definition example_ip_packet :: bytes where
  "example_ip_packet = 69 # replicate 15 0 @ [10, 8, 0, 2]"

theorem tun_packet_reaches_client_witness:
  "\<exists>bs s'. build_data_packet (env_crypto unit_env) example_ip_packet keyed_session = (Ok bs, s') \<and>
     aead_law (env_crypto unit_env) \<and> 20 \<le> length example_ip_packet \<and> s_peer_id keyed_session < 2 ^ 24 \<and>
     v_wire (snd (forward_tun_to_client unit_env example_ip_packet keyed_server)) =
       [(s_transport keyed_session, bs, True)]"
proof -
  have E: "env_crypto unit_env = example_api" "env_send unit_env n" for n by (simp_all add: unit_env_def)
  have law: "aead_law (env_crypto unit_env)" using example_api_law E by simp
  obtain bs s' where b: "build_data_packet (env_crypto unit_env) example_ip_packet keyed_session = (Ok bs, s')"
    by (simp add: E build_data_packet_def keyed_session_active DataCipher_seal_def example_api_def ok_or_def
        TAG_SIZE_def Let_def)
  have h: "example_ip_packet \<noteq> []" "drop_bit 4 (example_ip_packet ! 0) = 4" "20 \<le> length example_ip_packet"
    "(from_be_bytes (subslice example_ip_packet 16 20) :: u32) = 0x0A080002"
    by (simp_all add: example_ip_packet_def subslice_def from_be_bytes_def)
  have w: "v_routes keyed_server (from_be_bytes (subslice example_ip_packet 16 20)) = Some example_addr"
    "v_sessions keyed_server example_addr = Some 0" "v_wire keyed_server = []"
    by (simp_all only: h(4)) (simp_all add: keyed_server_def initial_server_def)
  have k: "ks_key_id (new_slot 0 (replicate 256 1)) AND 7 = ks_key_id (new_slot 0 (replicate 256 1))"
    "s_peer_id keyed_session < 2 ^ 24"
    by (simp_all add: new_slot_def keyed_session_def set_slot_def example_session_def Session_new_def)
  show ?thesis
    using b law h(3) k(2) w(3) E(2)
      tun_packet_reaches_client [OF law h(1-3) w(1,2) keyed_server_store keyed_session_active k b]
    by auto
qed

section \<open>The address pool\<close>

definition used_up :: "'c VpnServer \<Rightarrow> bool" where
  "used_up w \<longleftrightarrow> v_pool_end w < v_next_pool_ip w"

lemma quiet_used_up: "quiet_view y = quiet_view x \<Longrightarrow> used_up (fst x) \<Longrightarrow> used_up (fst y)"
  by (auto simp: quiet_view_def used_up_def case_prod_beta)

lemma used_up_push: "keeps (stays (used_up \<circ> fst)) (push_request E addr)"
proof -
  have a: "keeps (stays (used_up \<circ> fst)) (try_server allocate_ip)"
    by (rule keeps_try_server) (simp add: stays_def used_up_def allocate_ip_def Let_def)
  have i: "keeps (stays (used_up \<circ> fst)) (case x of V4 v4 \<Rightarrow> if v4 \<in> D then failM e else returnM v4
      | V6 v6 \<Rightarrow> failM f)" for x :: IpAddr and D e f
    by (cases x) (auto intro!: keeps_intros)
  have c: "keeps (stays (used_up \<circ> fst)) choose_ip"
    unfolding choose_ip_def by (intro keeps_intros stays_preorder a i)
  have r: "keeps (stays (used_up \<circ> fst)) (try_server (updM (\<lambda>w. w\<lparr>v_routes := f w\<rparr>)))" for f
    by (rule keeps_try_server) (simp add: stays_def used_up_def)
  have s: "keeps (stays (used_up \<circ> fst)) (on_sess f)" for f
    by (rule keeps_on_sess) (simp add: stays_def)
  show ?thesis
    unfolding push_request_def
    by (intro keeps_intros stays_preorder c r s keeps_same_stays [OF quiet_push_reply_to]) (simp add: quiet_used_up)
qed

lemma used_up_keys: "key_relation (stays (used_up \<circ> fst))"
  by (rule key_relation_mono [OF quiet.key_relation_axioms]) (auto simp: stays_def same_def intro: quiet_used_up)

interpretation exhausted: push_relation "stays (used_up \<circ> fst)" addr for addr
  by (intro push_relation.intro push_relation_axioms.intro used_up_keys used_up_push)

lemma used_up_put: "keeps (stays (used_up \<circ> fst)) m \<Longrightarrow> used_up w \<Longrightarrow> used_up (put r (snd (m (w, s))))"
  by (simp add: keeps_def stays_def used_up_def)

interpretation exhaustion: server_invariant used_up
proof
  fix w :: "'c VpnServer" and a r and s :: "'c Session"
  assume u: "used_up w"
  show "used_up (put r (snd (handle_session_packet E a ctrl p (w, s))))"
    if "cp_key_id ctrl AND 7 = cp_key_id ctrl" for E ctrl p
    using used_up_put [OF exhausted.session_packet [OF that] u] .
  show "used_up (put r (snd (m (w, s))))" if "task E m" for E m
    using used_up_put [OF task_keeps [OF that exhausted.lock_relation_axioms] u] .
qed (simp_all add: used_up_def remove_ids_def register_session_def spawn_data_worker_def Let_def)



section \<open>Fragmentation of TLS output\<close>

text \<open>What a successful \<open>send_chunk\<close> does to the session and the wire.\<close>

lemma wrap_for_wire_session:
  assumes "wrap_for_wire E w inner s = (r, s1)"
  shows "s_unacked s1 = s_unacked s \<and> s_pending_acks s1 = s_pending_acks s \<and> s_next_packet_id s1 = s_next_packet_id s"
  using assms
  by (auto simp: wrap_for_wire_def next_tls_auth_pid_def Let_def split: option.splits)

lemma send_chunk_effect:
  assumes "send_chunk E k c (w, s) = (Inr u, (w', s'))"
  shows "s_unacked s' = s_unacked s @ [\<lparr>un_packet_id = s_next_packet_id s,
      un_encoded = ControlPacket_encode (fst (make_control k c s)), un_sent_at = env_now E, un_attempts = 1\<rparr>] \<and>
    s_pending_acks s' = [] \<and> s_next_packet_id s' = s_next_packet_id s + 1 \<and>
    length (v_wire w') = length (v_wire w) + 1"
proof -
  let ?p = "fst (make_control k c s)" and ?s = "snd (make_control k c s)"
  have p: "cp_packet_id ?p = Some (s_next_packet_id s)" "s_unacked ?s = s_unacked s" "s_pending_acks ?s = []"
    "s_next_packet_id ?s = s_next_packet_id s + 1"
    by (simp_all add: make_control_def alloc_packet_id_def Let_def)
  obtain r s1 where wrap: "wrap_for_wire E w (ControlPacket_encode ?p) ?s = (r, s1)" by (rule prod.exhaust)
  have run: "send_and_track E ?p (w, ?s) = (Inr u, (w', s'))"
    using assms by (simp add: send_chunk_def bindM_def call_sess_def case_prod_beta Let_def)
  obtain wire where r: "r = Inr wire" using run wrap
    by (cases r) (simp_all add: send_and_track_def bindM_def try_sess_def Let_def)
  have "env_send E (length (v_wire w))" using run wrap r
    by (cases "env_send E (length (v_wire w))")
      (simp_all add: send_and_track_def bindM_def thenM_def try_sess_def Let_def send_sess_def try_server_def
        Transport_send_def split: Transport.splits)
  then have "w' = w\<lparr>v_wire := v_wire w @ [(s_transport s1, wire, True)]\<rparr>"
    "s' = record_sent (s_next_packet_id s) (ControlPacket_encode ?p) (env_now E) s1"
    using run wrap r p(1)
    by (simp_all add: send_and_track_def bindM_def thenM_def try_sess_def Let_def send_sess_def try_server_def
        Transport_send_def)
  then show ?thesis using wrap_for_wire_session [OF wrap] p by (simp add: record_sent_def)
qed

definition tracked :: "instant \<Rightarrow> ControlPacket \<Rightarrow> Unacked" where
  "tracked now p = \<lparr>un_packet_id = the (cp_packet_id p), un_encoded = ControlPacket_encode p, un_sent_at = now, un_attempts = 1\<rparr>"

lemma make_control_fields:
  "cp_payload (fst (make_control k c s)) = c" "cp_op (fst (make_control k c s)) = ControlV1"
  "cp_key_id (fst (make_control k c s)) = k" "cp_acks (fst (make_control k c s)) = s_pending_acks s"
  "cp_packet_id (fst (make_control k c s)) = Some (s_next_packet_id s)"
  by (simp_all add: make_control_def alloc_packet_id_def Let_def)

lemma send_chunks_effect:
  assumes "forM cs (send_chunk E k) (w, s) = (Inr u, (w', s'))"
  shows "\<exists>pkts. map cp_payload pkts = cs \<and> s_unacked s' = s_unacked s @ map (tracked (env_now E)) pkts \<and>
    map cp_packet_id pkts = map (\<lambda>i. Some (s_next_packet_id s + word_of_nat i)) [0..<length cs] \<and>
    (\<forall>p \<in> set pkts. cp_op p = ControlV1 \<and> cp_key_id p = k) \<and>
    map cp_acks pkts = (if cs = [] then [] else s_pending_acks s # replicate (length cs - 1) []) \<and>
    length (v_wire w') = length (v_wire w) + length cs"
  using assms
proof (induction cs arbitrary: w s)
  case Nil
  then show ?case by simp
next
  case (Cons c cs)
  from Cons.prems obtain v w1 s1 where c: "send_chunk E k c (w, s) = (Inr v, (w1, s1))"
    and rest: "forM cs (send_chunk E k) (w1, s1) = (Inr u, (w', s'))"
    unfolding forM.simps by (elim thenM_InrE) (metis prod.exhaust)
  note e = send_chunk_effect [OF c]
  from Cons.IH [OF rest] obtain pkts where p: "map cp_payload pkts = cs"
    "s_unacked s' = s_unacked s1 @ map (tracked (env_now E)) pkts"
    "map cp_packet_id pkts = map (\<lambda>i. Some (s_next_packet_id s1 + word_of_nat i)) [0..<length cs]"
    "\<forall>p \<in> set pkts. cp_op p = ControlV1 \<and> cp_key_id p = k"
    "map cp_acks pkts = (if cs = [] then [] else s_pending_acks s1 # replicate (length cs - 1) [])"
    "length (v_wire w') = length (v_wire w1) + length cs" by blast
  have acks: "map cp_acks pkts = replicate (length cs) []" using p(5) e by (cases cs) simp_all
  show ?case
    by (rule exI [of _ "fst (make_control k c s) # pkts"])
      (use p acks e in \<open>simp add: make_control_fields tracked_def map_upt_Suc ac_simps del: upt_Suc\<close>)
qed

text \<open>C18: a successful flush cuts the pending TLS output into \<open>P_CONTROL_V1\<close> packets of at most 1100
  octets that together carry exactly that output, numbered consecutively from the session's next packet id,
  the pending acknowledgements riding on the first one only; each is put on the wire and queued for
  retransmission.\<close>

theorem tls_output_fragmentation:
  assumes "flush_outgoing E (w, s) = (Inr u, (w', s'))"
    and "conn_write_tls (env_rustls E) (conn (s_tls s)) = (out, c)" and "out \<noteq> []"
  shows "\<exists>pkts. concat (map cp_payload pkts) = out \<and> pkts \<noteq> [] \<and>
    (\<forall>p \<in> set pkts. cp_op p = ControlV1 \<and> cp_key_id p = active_key_id s \<and> length (cp_payload p) \<le> 1100) \<and>
    map cp_packet_id pkts = map (\<lambda>i. Some (s_next_packet_id s + word_of_nat i)) [0..<length pkts] \<and>
    cp_acks (hd pkts) = s_pending_acks s \<and> (\<forall>p \<in> set (tl pkts). cp_acks p = []) \<and>
    s_unacked s' = s_unacked s @ map (tracked (env_now E)) pkts \<and>
    length (v_wire w') = length (v_wire w) + length pkts"
proof -
  let ?t = "s\<lparr>s_tls := (s_tls s)\<lparr>conn := c\<rparr>\<rparr>" and ?cs = "chunks MAX_TLS_PAYLOAD_PER_CONTROL out"
  have k: "active_key_id ?t = active_key_id s" by (simp add: active_key_id_def active_slot_def)
  have "forM ?cs (send_chunk E (active_key_id s)) (w, ?t) = (Inr u, (w', s'))"
    using assms k
    by (simp add: flush_outgoing_def bindM_def sess_take_outgoing_def call_sess_def take_outgoing_def Let_def)
  from send_chunks_effect [OF this] obtain pkts where p: "map cp_payload pkts = ?cs"
    "s_unacked s' = s_unacked s @ map (tracked (env_now E)) pkts"
    "map cp_packet_id pkts = map (\<lambda>i. Some (s_next_packet_id s + word_of_nat i)) [0..<length ?cs]"
    "\<forall>p \<in> set pkts. cp_op p = ControlV1 \<and> cp_key_id p = active_key_id s"
    "map cp_acks pkts = (if ?cs = [] then [] else s_pending_acks s # replicate (length ?cs - 1) [])"
    "length (v_wire w') = length (v_wire w) + length ?cs" by auto
  have ne: "?cs \<noteq> []" using assms(3) by (subst chunks.simps) (simp add: MAX_TLS_PAYLOAD_PER_CONTROL_def)
  have n: "length pkts = length ?cs" using arg_cong [OF p(1), of length] by simp
  then obtain x xs where x: "pkts = x # xs" using ne by (cases pkts) simp_all
  have "s_pending_acks s # replicate (length xs) [] = cp_acks x # map cp_acks xs"
    using p(5) ne n x by (cases ?cs) simp_all
  then have "cp_acks x = s_pending_acks s" and r: "map cp_acks xs = replicate (length xs) []" by simp_all
  moreover have "\<forall>y \<in> set xs. cp_acks y = []"
    using arg_cong [OF r, of set] by (auto simp: set_replicate_conv_if split: if_splits)
  ultimately have acks: "cp_acks x = s_pending_acks s" "\<forall>y \<in> set xs. cp_acks y = []" by simp_all
  have small: "\<forall>y \<in> set pkts. length (cp_payload y) \<le> 1100"
  proof
    fix y assume "y \<in> set pkts"
    then have "cp_payload y \<in> set ?cs" unfolding p(1) [symmetric] by simp
    then show "length (cp_payload y) \<le> 1100" using chunks_bound by (fastforce simp: MAX_TLS_PAYLOAD_PER_CONTROL_def)
  qed
  have all: "concat (map cp_payload pkts) = out"
    unfolding p(1) by (rule concat_chunks) (simp add: MAX_TLS_PAYLOAD_PER_CONTROL_def)
  show ?thesis
    by (intro exI [of _ pkts] conjI)
      (use all small p(2-4,6) n acks in \<open>auto simp: x\<close>)
qed

definition chatty_env :: "unit env" where
  "chatty_env = unit_env\<lparr>env_rustls := unit_tls\<lparr>conn_write_tls := (\<lambda>c. (replicate 1500 7, c))\<rparr>\<rparr>"

theorem tls_output_fragmentation_witness:
  "\<exists>w' s' pkts. flush_outgoing chatty_env (keyed_server, keyed_session) = (Inr (), (w', s')) \<and>
     conn_write_tls (env_rustls chatty_env) (conn (s_tls keyed_session)) = (replicate 1500 7, ()) \<and>
     concat (map cp_payload pkts) = replicate 1500 7 \<and> (\<forall>p \<in> set pkts. length (cp_payload p) \<le> 1100) \<and>
     s_unacked s' = s_unacked keyed_session @ map (tracked 0) pkts"
proof -
  let ?out = "replicate 1500 7 :: bytes"
  have o: "conn_write_tls (env_rustls chatty_env) (conn (s_tls keyed_session)) = (?out, ())"
    by (simp add: chatty_env_def)
  have cs: "chunks MAX_TLS_PAYLOAD_PER_CONTROL ?out = [replicate 1100 7, replicate 400 7]"
    by (simp add: chunks_step MAX_TLS_PAYLOAD_PER_CONTROL_def)
  have E: "env_send chatty_env n" "env_now chatty_env = 0" "v_tls_crypt keyed_server = None" "v_tls_auth keyed_server = None"
    for n by (simp_all add: chatty_env_def unit_env_def keyed_server_def initial_server_def)
  obtain w' s' where f: "flush_outgoing chatty_env (keyed_server, keyed_session) = (Inr (), (w', s'))"
    using o E
    by (simp add: flush_outgoing_def bindM_def thenM_def sess_take_outgoing_def call_sess_def take_outgoing_def Let_def cs
        send_chunk_def make_control_def alloc_packet_id_def send_and_track_def try_sess_def wrap_for_wire_def
        send_sess_def try_server_def Transport_send_def)
  show ?thesis using f o E(2) tls_output_fragmentation [OF f o] by auto
qed

end
