(* ===== verification/Rekeying.thy ===== *)
theory Rekeying
  imports Server_Tasks
begin

text \<open>A rekey from the client's last TLS record to the new key (\<open>handle_rekey_control\<close> of
  \<open>src/src/server.rs\<close>): the new slot is derived, installed and promoted, the reply leaves the server in
  control packets under the new key id, and the previous slot stays for the packets in flight.\<close>

declare split_paired_All [simp del] split_paired_Ex [simp del]

section \<open>Sending succeeds when the transport does\<close>

lemma encode_long: "9 \<le> length (ControlPacket_encode p)"
  by (simp add: ControlPacket_encode_def)

lemma wrap_for_wire_ok: "9 \<le> length inner \<Longrightarrow> \<exists>wire. fst (wrap_for_wire E w inner s) = Ok wire"
  by (auto simp: wrap_for_wire_def TlsCryptKey_wrap_def TlsAuthKey_wrap_def HEADER_LEN_def Let_def case_prod_beta
      split: option.split)

lemma send_chunk_ok:
  assumes "\<forall>n. env_send E n"
  shows "fst (send_chunk E k c st) = Ok ()"
proof -
  let ?p = "fst (make_control k c (snd st))"
  obtain wire s1 where "wrap_for_wire E (fst st) (ControlPacket_encode ?p) (snd (make_control k c (snd st))) = (Inr wire, s1)"
    using wrap_for_wire_ok [OF encode_long, of E "fst st" ?p] by (metis prod.collapse)
  moreover have "cp_packet_id ?p \<noteq> None" by (simp add: make_control_fields)
  ultimately show ?thesis
    using assms
    by (cases st) (auto simp: send_chunk_def send_and_track_def bindM_def thenM_def call_sess_def case_prod_beta
        with_state_def try_sess_def send_sess_def try_server_def Transport_send_def on_sess_def Let_def)
qed

lemma forM_ok: "(\<And>x st. fst (f x st) = Ok ()) \<Longrightarrow> fst (forM xs f st) = Ok ()"
proof (induction xs arbitrary: st)
  case (Cons x xs)
  then have "f x st = (Ok (), snd (f x st))" by (metis prod.collapse)
  with Cons show ?case by (simp add: thenM_Ok)
qed simp

text \<open>Sending control packets leaves the key slots and the rekey track alone.\<close>

definition rekey_view :: "'c VpnServer \<times> 'c Session \<Rightarrow> _" where
  "rekey_view st = (s_rekey (snd st), s_slots (snd st), s_active_slot_idx (snd st))"

lemma chunks_keep_view: "keeps (same rekey_view) (forM cs (send_chunk E k))"
proof -
  have a: "keeps (same rekey_view) (try_sess (wrap_for_wire E w inner))" for w inner
    by (rule keeps_try_sess)
      (simp add: same_def rekey_view_def wrap_for_wire_def next_tls_auth_pid_def case_prod_beta Let_def split: option.split)
  have b: "keeps (same rekey_view) (try_server (Transport_send E tr wire))" for tr wire
    by (rule keeps_try_server) (simp add: same_def rekey_view_def)
  have c: "keeps (same rekey_view) (on_sess (record_sent p enc now))" for p enc now
    by (rule keeps_on_sess) (simp add: same_def rekey_view_def record_sent_def)
  have d: "keeps (same rekey_view) (call_sess (make_control k c))" for c
    by (rule keeps_call_sess) (simp add: same_def rekey_view_def make_control_def alloc_packet_id_def Let_def)
  show ?thesis
    unfolding send_chunk_def send_and_track_def send_sess_def Let_def
    by (intro keeps_intros same_preorder a b c d)
qed

section \<open>The rekey completes\<close>

text \<open>The reply of the server on the track, and the output of TLS after it was written.\<close>

definition rekey_output :: "'c env \<Rightarrow> ServerConfig \<Rightarrow> 'c RekeyTrack \<Rightarrow> 'c TlsSession \<Rightarrow> bytes" where
  "rekey_output E cfg rk t =
     fst (conn_write_tls (env_rustls E) (snd (conn_write_all (env_rustls E) (conn t)
       (server_km2_reply cfg (rk_server_random1 rk) (rk_server_random2 rk)))))"

lemma feed_track:
  assumes "TlsSession_feed (env_rustls E) (rk_tls rk) payload = (Ok (), t)" and "\<not> is_handshaking (env_rustls E) t"
  shows "thenM (rekey_feed E payload rk) m (w, s) =
    m (w, s\<lparr>s_rekey := Some (rk\<lparr>rk_tls := t, rk_state := RkKeyExchange\<rparr>)\<rparr>)"
  unfolding rekey_feed_def
  by (rule run_try) (use assms in \<open>cases "rk_state rk"; simp add: Let_def\<close>)

lemma drive_track:
  assumes "writes_ok (env_rustls E)" and "s_rekey s = Some rk" and "rk_state rk = RkKeyExchange"
    and "km_ok km" and "plaintext_in (rk_tls rk) = ClientKeyMethod2_encode km @ rest"
    and kd: "derive_openvpn_key_data (env_crypto E) (km_pre_master km) (km_random1 km) (rk_server_random1 rk)
        (km_random2 km) (rk_server_random2 rk) (to_be_bytes (s_client_session_id s)) (to_be_bytes (s_server_session_id s)) = Some kd"
  shows "thenM (drive_rekey_control_plane E) m (w, s) =
    m (w, (install_slot (new_slot (rk_key_id rk) kd) s)\<lparr>s_rekey := Some (rk\<lparr>rk_tls := (rk_tls rk)\<lparr>plaintext_in := rest,
        conn := snd (conn_write_all (env_rustls E) (conn (rk_tls rk))
          (server_km2_reply (v_cfg w) (rk_server_random1 rk) (rk_server_random2 rk)))\<rparr>,
      rk_key_method_sent := True\<rparr>)\<rparr>)"
proof -
  note pop = km2.enc_parse [OF assms(4), of rest, folded assms(5)]
  show ?thesis
    using assms(2,3,5) pop kd
    by (simp add: drive_rekey_control_plane_def thenM_def bindM_def with_state_def returned_def
        on_sess_def try_sess_def send_plaintext_ok [OF assms(1)] Let_def)
qed

text \<open>Flushing the track: the TLS output leaves in control packets under the new key id.\<close>

lemma flush_track:
  assumes "\<forall>n. env_send E n" and "s_rekey s = Some rk" and "fst (conn_write_tls (env_rustls E) (conn (rk_tls rk))) = out"
  obtains w' s' t pkts where "thenM (flush_rekey_outgoing E) m (w, s) = m (w', s')"
    "s_rekey s' = Some (rk\<lparr>rk_tls := t\<rparr>)" "s_slots s' = s_slots s" "s_active_slot_idx s' = s_active_slot_idx s"
    "concat (map cp_payload pkts) = out" "\<forall>p \<in> set pkts. cp_op p = ControlV1 \<and> cp_key_id p = rk_key_id rk"
    "s_unacked s' = s_unacked s @ map (tracked (env_now E)) pkts"
proof -
  obtain t where t: "take_outgoing (env_rustls E) (rk_tls rk) = (out, t)"
    using assms(3) by (simp add: take_outgoing_def case_prod_beta)
  let ?cs = "chunks MAX_TLS_PAYLOAD_PER_CONTROL out" and ?s = "s\<lparr>s_rekey := Some (rk\<lparr>rk_tls := t\<rparr>)\<rparr>"
  obtain w' s' where run: "forM ?cs (send_chunk E (rk_key_id rk)) (w, ?s) = (Ok (), (w', s'))"
    using forM_ok [where f = "send_chunk E (rk_key_id rk)" and xs = ?cs and st = "(w, ?s)", OF send_chunk_ok [OF assms(1)]]
    by (metis prod.collapse)
  have view: "s_rekey s' = Some (rk\<lparr>rk_tls := t\<rparr>)" "s_slots s' = s_slots s" "s_active_slot_idx s' = s_active_slot_idx s"
    using keepsD [OF chunks_keep_view run] by (simp_all add: same_def rekey_view_def)
  from send_chunks_effect [OF run] obtain pkts where p: "map cp_payload pkts = ?cs"
    "s_unacked s' = s_unacked s @ map (tracked (env_now E)) pkts"
    "\<forall>p \<in> set pkts. cp_op p = ControlV1 \<and> cp_key_id p = rk_key_id rk" by auto
  have all: "concat (map cp_payload pkts) = out"
    unfolding p(1) by (rule concat_chunks) (simp add: MAX_TLS_PAYLOAD_PER_CONTROL_def)
  have "thenM (flush_rekey_outgoing E) m (w, s) =
      thenM (if out = [] then returnM () else forM ?cs (send_chunk E (rk_key_id rk))) m (w, ?s)"
    using assms(2) t by (simp add: flush_rekey_outgoing_def thenM_def bindM_def call_sess_def)
  moreover have "?cs = []" if "out = []" using that by (subst chunks.simps) simp
  ultimately have "thenM (flush_rekey_outgoing E) m (w, s) = m (w', s')"
    using run by (cases "out = []") (simp_all add: thenM_Ok)
  then show thesis using view all p(3,2) by (rule that)
qed

lemma promote_same_slots:
  "promote_slot k s = (True, s3) \<Longrightarrow> s_slots s' = s_slots s \<Longrightarrow>
   s_slots (snd (promote_slot k s')) = s_slots s3 \<and> s_active_slot_idx (snd (promote_slot k s')) = s_active_slot_idx s3"
  by (auto simp: promote_slot_def split: option.splits)



end
