(* ===== verification/Retransmission.thy ===== *)
theory Retransmission
  imports Rekeying
begin

text \<open>The retransmission task under an envelope (\<open>src/src/server.rs\<close>): what it puts on the wire opens, with
  the client's mirrored keys, to the packets that were queued, each under an envelope id of its own.\<close>

declare split_paired_All [simp del] split_paired_Ex [simp del]

text \<open>The envelope keys as the peer holds them.\<close>

definition peer_side :: "'c VpnServer \<Rightarrow> 'c VpnServer" where
  "peer_side w = w\<lparr>v_tls_crypt := map_option TlsCryptKey_mirror (v_tls_crypt w),
     v_tls_auth := map_option TlsAuthKey_mirror (v_tls_auth w)\<rparr>"

definition enveloped :: "'c VpnServer \<Rightarrow> bool" where
  "enveloped w \<longleftrightarrow> v_tls_crypt w \<noteq> None \<or> v_tls_auth w \<noteq> None"

lemma wrap_opens:
  assumes "enveloped w" "9 \<le> length inner"
  obtains wire where "wrap_for_wire E w inner s = (Inr wire, snd (next_tls_auth_pid s))"
    "unwrap_control E (peer_side w) wire = Ok (Some inner, Some (fst (next_tls_auth_pid s)))"
proof (cases "v_tls_crypt w")
  case (Some tc)
  obtain wire where wire: "TlsCryptKey_wrap (env_crypto E) tc inner (fst (next_tls_auth_pid s)) (unix_timestamp_u32 (env_unix E)) = Ok wire"
    using tcrypt.wrap_total [OF assms(2)] by blast
  with Some tcrypt.peer_unwraps [OF wire] show thesis
    by (intro that [of wire]) (simp_all add: wrap_for_wire_def unwrap_control_def peer_side_def case_prod_beta Let_def)
next
  case None
  then obtain ta where ta: "v_tls_auth w = Some ta" using assms(1) by (auto simp: enveloped_def)
  obtain wire where wire: "TlsAuthKey_wrap (env_crypto E) ta inner (fst (next_tls_auth_pid s)) (unix_timestamp_u32 (env_unix E)) = Ok wire"
    using tauth.wrap_total [OF assms(2)] by blast
  with None ta tauth.peer_unwraps [OF wire] show thesis
    by (intro that [of wire]) (simp_all add: wrap_for_wire_def unwrap_control_def peer_side_def case_prod_beta Let_def)
qed

lemma rewrap_all_opens:
  assumes "enveloped w" "\<And>inner. inner \<in> set inners \<Longrightarrow> 9 \<le> length inner"
  shows "\<exists>wires s'. rewrap_all E inners (w, s) = (Ok wires, (w, s')) \<and> s_transport s' = s_transport s \<and>
    map (unwrap_control E (peer_side w)) wires =
      map2 (\<lambda>inner pid. Ok (Some inner, Some pid)) inners (draws next_tls_auth_pid (length inners) s)"
  using assms(2)
proof (induction inners arbitrary: s)
  case (Cons inner inners)
  let ?s = "snd (next_tls_auth_pid s)"
  obtain wire where wire: "wrap_for_wire E w inner s = (Inr wire, ?s)"
    "unwrap_control E (peer_side w) wire = Ok (Some inner, Some (fst (next_tls_auth_pid s)))"
    using wrap_opens [OF assms(1), of inner E s] Cons.prems by auto
  have tr: "s_transport ?s = s_transport s" by (simp add: next_tls_auth_pid_def Let_def)
  from Cons.IH [of ?s] Cons.prems obtain wires s' where
    "rewrap_all E inners (w, ?s) = (Ok wires, (w, s'))" "s_transport s' = s_transport ?s"
    "map (unwrap_control E (peer_side w)) wires =
      map2 (\<lambda>inner pid. Ok (Some inner, Some pid)) inners (draws next_tls_auth_pid (length inners) ?s)" by auto
  with wire tr show ?case
    by (intro exI [of _ "wire # wires"] exI [of _ s']) (simp add: bindM_def rewrap_def case_prod_beta)
qed simp

lemma send_all_ignoring:
  "\<exists>w'. forM wires (send_ignoring E) (w, s) = (Ok (), (w', s)) \<and>
     map (\<lambda>(tr, bs, ok). (tr, bs)) (v_wire w') = map (\<lambda>(tr, bs, ok). (tr, bs)) (v_wire w) @ map (Pair (s_transport s)) wires"
proof (induction wires arbitrary: w)
  case (Cons wire wires)
  let ?w = "w\<lparr>v_wire := v_wire w @ [(s_transport s, wire, env_send E (length (v_wire w)))]\<rparr>"
  have "send_ignoring E wire (w, s) = (Ok (), (?w, s))"
    by (simp add: send_ignoring_def send_sess_def with_state_def try_server_def Transport_send_def Let_def)
  with Cons [of ?w] show ?case by (auto simp: thenM_Ok)
qed simp

lemma stale_fewer: "length (fst (stale_unacked now rto s)) \<le> length (s_unacked s)"
proof -
  have "length (fst (stale_loop now rto us)) \<le> length us" for us
    by (induction us) (auto simp: stale_step_def case_prod_beta Let_def)
  then show ?thesis
    by (simp add: stale_unacked_def case_prod_beta Let_def) (meson length_filter_le order.trans)
qed

lemma length_draws [simp]: "length (draws f n s) = n"
  by (induction n arbitrary: s) (simp_all add: case_prod_beta)

text \<open>C22: with tls-crypt or tls-auth, a run of the retransmission task for a session sends, on its
  transport and in the order of the queue, one packet for every packet that is due, and nothing else; the
  client's mirrored keys open each to exactly the queued control packet, under envelope ids that are
  pairwise different and not 0, so the client's replay check on envelope ids does not reject one for
  another. Assumed: the queue holds encoded control packets, as \<open>send_and_track\<close> puts them there, the
  session's envelope counter is valid, and fewer than \<open>2 ^ 32\<close> packets are due.\<close>

theorem retransmission_readable:
  assumes "enveloped w" and "s_tls_auth_pid_out s \<noteq> 0" and "length (s_unacked s) \<le> 2 ^ 32 - 1"
    and "\<forall>u \<in> set (s_unacked s). \<exists>p. un_encoded u = ControlPacket_encode p"
  shows "\<exists>w' s' wires pids. retransmit E (w, s) = (Ok (), (w', s')) \<and>
    map (\<lambda>(tr, bs, ok). (tr, bs)) (v_wire w') =
      map (\<lambda>(tr, bs, ok). (tr, bs)) (v_wire w) @ map (Pair (s_transport s)) wires \<and>
    map (unwrap_control E (peer_side w)) wires =
      map2 (\<lambda>inner pid. Ok (Some inner, Some pid)) (fst (stale_unacked (env_now E) CONTROL_BASE_RTO s)) pids \<and>
    length pids = length (fst (stale_unacked (env_now E) CONTROL_BASE_RTO s)) \<and> distinct pids \<and> 0 \<notin> set pids"
proof -
  obtain stale s1 where st: "stale_unacked (env_now E) CONTROL_BASE_RTO s = (stale, s1)" by (rule prod.exhaust)
  have s1: "s_transport s1 = s_transport s" "s_tls_auth_pid_out s1 \<noteq> 0"
    using st assms(2) by (auto simp: stale_unacked_def case_prod_beta Let_def)
  have long: "9 \<le> length inner" if "inner \<in> set stale" for inner
    using stale_unacked_encoded(1) [of "env_now E" CONTROL_BASE_RTO s] st that assms(4) encode_long by fastforce
  from rewrap_all_opens [OF assms(1), of stale E s1, OF long] obtain wires s' where
    r: "rewrap_all E stale (w, s1) = (Ok wires, (w, s'))" "s_transport s' = s_transport s"
    "map (unwrap_control E (peer_side w)) wires =
      map2 (\<lambda>inner pid. Ok (Some inner, Some pid)) stale (draws next_tls_auth_pid (length stale) s1)" using s1 by auto
  obtain w' where w': "forM wires (send_ignoring E) (w, s') = (Ok (), (w', s'))"
    "map (\<lambda>(tr, bs, ok). (tr, bs)) (v_wire w') = map (\<lambda>(tr, bs, ok). (tr, bs)) (v_wire w) @ map (Pair (s_transport s)) wires"
    using send_all_ignoring [of wires E w s'] r(2) by auto
  have run: "retransmit E (w, s) = (Ok (), (w', s'))"
    using st r(1) w'(1) by (simp add: retransmit_def bindM_def call_sess_def)
  have "length stale \<le> 2 ^ 32 - 1"
    using stale_fewer [of "env_now E" CONTROL_BASE_RTO s] st assms(3) by simp
  from next_tls_auth_pid_fresh [OF s1(2) this] show ?thesis
    using run w'(2) r(3) st
    by (intro exI [of _ w'] exI [of _ s'] exI [of _ wires] exI [of _ "draws next_tls_auth_pid (length stale) s1"]) simp
qed

text \<open>A session with one unacknowledged packet, due after a second, under tls-crypt.\<close>

theorem retransmission_readable_witness:
  "let w = keyed_server\<lparr>v_tls_crypt := Some (TlsCryptKey_from_static_key_server (replicate 256 1))\<rparr>;
       s = record_sent 5 (ControlPacket_encode example_request) 0 keyed_session;
       E = unit_env\<lparr>env_now := CONTROL_BASE_RTO\<rparr>
   in enveloped w \<and> fst (stale_unacked (env_now E) CONTROL_BASE_RTO s) = [ControlPacket_encode example_request] \<and>
      (\<exists>w' s' wire pid. retransmit E (w, s) = (Ok (), (w', s')) \<and> pid \<noteq> 0 \<and>
        map (\<lambda>(tr, bs, ok). (tr, bs)) (v_wire w') =
          map (\<lambda>(tr, bs, ok). (tr, bs)) (v_wire w) @ [(s_transport s, wire)] \<and>
        unwrap_control E (peer_side w) wire = Ok (Some (ControlPacket_encode example_request), Some pid))"
proof -
  let ?w = "keyed_server\<lparr>v_tls_crypt := Some (TlsCryptKey_from_static_key_server (replicate 256 1))\<rparr>"
  let ?s = "record_sent 5 (ControlPacket_encode example_request) 0 keyed_session"
  let ?E = "unit_env\<lparr>env_now := CONTROL_BASE_RTO\<rparr>"
  have u: "s_unacked ?s = [\<lparr>un_packet_id = 5, un_encoded = ControlPacket_encode example_request, un_sent_at = 0, un_attempts = 1\<rparr>]"
    and p: "s_tls_auth_pid_out ?s \<noteq> 0"
    by (simp_all add: record_sent_def keyed_session_def set_slot_def example_session_def Session_new_def)
  have stale: "fst (stale_unacked (env_now ?E) CONTROL_BASE_RTO ?s) = [ControlPacket_encode example_request]"
    by (simp add: stale_unacked_def u stale_step_def CONTROL_MAX_ATTEMPTS_def duration_since_def saturating_sub_def Let_def)
  have e: "enveloped ?w" by (simp add: enveloped_def)
  from retransmission_readable [OF e p, of ?E] obtain w' s' wires pids where
    "retransmit ?E (?w, ?s) = (Ok (), (w', s'))" "0 \<notin> set pids"
    "map (\<lambda>(tr, bs, ok). (tr, bs)) (v_wire w') = map (\<lambda>(tr, bs, ok). (tr, bs)) (v_wire ?w) @ map (Pair (s_transport ?s)) wires"
    "map (unwrap_control ?E (peer_side ?w)) wires =
      map2 (\<lambda>inner pid. Ok (Some inner, Some pid)) [ControlPacket_encode example_request] pids" "length pids = 1"
    unfolding stale by (auto simp: u)
  then show ?thesis unfolding Let_def using e stale
    by (auto simp: length_Suc_conv)
qed

end
