(* ===== verification/Eviction.thy ===== *)
theory Eviction
  imports Delivery
begin

text \<open>
  Eviction in two steps. The reaper of \<open>run\<close> and the end of \<open>run_tcp_stream\<close> (\<open>src/src/server.rs\<close>) do not
  evict a session atomically: the reaper reads the session under its lock, releases the lock and then
  removes the map entries; a closing TCP stream first takes the session out of the map and then removes
  the rest under the session's lock. Here other steps of the server may come in between. Without
  static addresses this does no harm to the routes.
\<close>

declare split_paired_All [simp del] split_paired_Ex [simp del]

section \<open>The halves of an eviction\<close>

definition reap_read :: "'c env \<Rightarrow> SocketAddr \<Rightarrow> 'c VpnServer \<Rightarrow> 'c Session option" where
  "reap_read E addr w =
     (case v_sessions w addr of
        None \<Rightarrow> None
      | Some r \<Rightarrow>
          (case v_store w r of
             None \<Rightarrow> None
           | Some s \<Rightarrow>
               if duration_since (env_now E) (s_last_seen s) \<ge> from_secs (unat (cfg_keepalive_timeout (v_cfg w)))
               then Some s else None))"

definition evict :: "SocketAddr \<Rightarrow> 'c Session \<Rightarrow> 'c VpnServer \<Rightarrow> 'c VpnServer" where
  "evict addr s w = remove_ids s (w\<lparr>v_sessions := (v_sessions w)(addr := None)\<rparr>)"

definition tcp_detach :: "SocketAddr \<Rightarrow> 'c VpnServer \<Rightarrow> 'c VpnServer" where
  "tcp_detach peer w = w\<lparr>v_sessions := (v_sessions w)(peer := None)\<rparr>"

definition tcp_cleanup :: "nat \<Rightarrow> 'c VpnServer \<Rightarrow> 'c VpnServer" where
  "tcp_cleanup r w = (case v_store w r of Some s \<Rightarrow> remove_ids s w | None \<Rightarrow> w)"

text \<open>Without anything in between, the halves make up the whole.\<close>

lemma reap_halves: "reap E addr w = (case reap_read E addr w of None \<Rightarrow> w | Some s \<Rightarrow> evict addr s w)"
  by (simp add: reap_def reap_read_def evict_def split: option.split)

lemma tcp_closed_halves:
  "tcp_closed addr w = (case v_sessions w addr of None \<Rightarrow> w | Some r \<Rightarrow> tcp_cleanup r (tcp_detach addr w))"
  by (simp add: tcp_closed_def tcp_detach_def tcp_cleanup_def Let_def split: option.split)

text \<open>The evictions that are under way: the reaper holds the address and the session as it read it, a
  closing stream holds the session object.\<close>

datatype 'c pending = Evicting SocketAddr "'c Session" | Closing nat

inductive fine_reaches :: "'c VpnServer \<Rightarrow> 'c VpnServer \<Rightarrow> 'c pending set \<Rightarrow> bool" for w0 where
  fine_start: "fine_reaches w0 w0 {}"
| fine_whole: "fine_reaches w0 w P \<Longrightarrow> fine_reaches w0 (server_event E ev w) P"
| fine_read: "fine_reaches w0 w P \<Longrightarrow> reap_read E a w = Some s \<Longrightarrow> fine_reaches w0 w (insert (Evicting a s) P)"
| fine_evict: "fine_reaches w0 w P \<Longrightarrow> Evicting a s \<in> P \<Longrightarrow> fine_reaches w0 (evict a s w) (P - {Evicting a s})"
| fine_detach: "fine_reaches w0 w P \<Longrightarrow> v_sessions w a = Some r \<Longrightarrow>
    fine_reaches w0 (tcp_detach a w) (insert (Closing r) P)"
| fine_cleanup: "fine_reaches w0 w P \<Longrightarrow> Closing r \<in> P \<Longrightarrow> fine_reaches w0 (tcp_cleanup r w) (P - {Closing r})"

section \<open>What a handler does to the addresses\<close>

definition no_static :: "ServerConfig \<Rightarrow> bool" where
  "no_static cfg \<longleftrightarrow> (\<forall>cn c. cfg_client_configs cfg cn = Some c \<longrightarrow> cc_assign_ip c = None)"

definition lease_ok :: "'c VpnServer \<Rightarrow> bool" where
  "lease_ok w \<longleftrightarrow> no_static (v_cfg w) \<and> v_pool_end w < - 1"

text \<open>The part of the server no handler changes.\<close>

definition fixed_part :: "'c VpnServer \<Rightarrow> _" where
  "fixed_part w = (v_sessions w, v_store w, v_next_ref w, v_cfg w, v_pool_end w)"

text \<open>The session keeps its address or gets one that was never handed out, with its route; routes of
  addresses handed out before stay as they are.\<close>

definition leases :: "SocketAddr \<Rightarrow> 'c VpnServer \<times> 'c Session \<Rightarrow> 'c VpnServer \<times> 'c Session \<Rightarrow> bool" where
  "leases addr = (\<lambda>(w, s) (w', s'). lease_ok w \<longrightarrow>
     fixed_part w' = fixed_part w \<and> v_next_pool_ip w \<le> v_next_pool_ip w' \<and>
     (\<forall>ip. ip < v_next_pool_ip w \<longrightarrow> v_routes w' ip = v_routes w ip) \<and>
     (session_ip s' = session_ip s \<or>
      (\<exists>ip. session_ip s' = Some ip \<and> v_next_pool_ip w \<le> ip \<and> ip < v_next_pool_ip w' \<and> v_routes w' ip = Some addr)))"

lemma leases_refl: "reflp (leases addr)"
  by (auto simp: leases_def intro!: reflpI)

lemma leases_trans: "transp (leases addr)"
proof (rule transpI)
  fix x y z :: "'a VpnServer \<times> 'a Session"
  assume xy: "leases addr x y" and yz: "leases addr y z"
  obtain w s w' s' w2 s2 where e: "x = (w, s)" "y = (w', s')" "z = (w2, s2)" by (metis prod.exhaust)
  show "leases addr x z"
    unfolding leases_def e prod.case
  proof (intro impI)
    assume ok: "lease_ok w"
    from xy ok have 1: "fixed_part w' = fixed_part w" "v_next_pool_ip w \<le> v_next_pool_ip w'"
      "\<forall>ip. ip < v_next_pool_ip w \<longrightarrow> v_routes w' ip = v_routes w ip"
      "session_ip s' = session_ip s \<or> (\<exists>ip. session_ip s' = Some ip \<and> v_next_pool_ip w \<le> ip \<and>
         ip < v_next_pool_ip w' \<and> v_routes w' ip = Some addr)" by (simp_all add: leases_def e)
    have "lease_ok w'" using ok 1(1) by (simp add: lease_ok_def fixed_part_def)
    with yz have 2: "fixed_part w2 = fixed_part w'" "v_next_pool_ip w' \<le> v_next_pool_ip w2"
      "\<forall>ip. ip < v_next_pool_ip w' \<longrightarrow> v_routes w2 ip = v_routes w' ip"
      "session_ip s2 = session_ip s' \<or> (\<exists>ip. session_ip s2 = Some ip \<and> v_next_pool_ip w' \<le> ip \<and>
         ip < v_next_pool_ip w2 \<and> v_routes w2 ip = Some addr)" by (simp_all add: leases_def e)
    have le: "v_next_pool_ip w \<le> v_next_pool_ip w2" using 1(2) 2(2) by (rule order.trans)
    have ip: "session_ip s2 = session_ip s \<or> (\<exists>ip. session_ip s2 = Some ip \<and> v_next_pool_ip w \<le> ip \<and>
         ip < v_next_pool_ip w2 \<and> v_routes w2 ip = Some addr)"
      using 1(4) 2(4) order.trans [OF 1(2)] order.strict_trans2 [OF _ 2(2)] 2(3) by auto
    have "v_routes w2 ip = v_routes w ip" if "ip < v_next_pool_ip w" for ip
      using that 1(3) 2(3) order.strict_trans2 [OF that 1(2)] by simp
    with 1(1) 2(1) le ip show "fixed_part w2 = fixed_part w \<and> v_next_pool_ip w \<le> v_next_pool_ip w2 \<and>
      (\<forall>ip. ip < v_next_pool_ip w \<longrightarrow> v_routes w2 ip = v_routes w ip) \<and>
      (session_ip s2 = session_ip s \<or> (\<exists>ip. session_ip s2 = Some ip \<and> v_next_pool_ip w \<le> ip \<and>
         ip < v_next_pool_ip w2 \<and> v_routes w2 ip = Some addr))"
      by simp
  qed
qed

lemma quiet_leases: "quiet_view y = quiet_view x \<Longrightarrow> leases addr x y"
  by (cases x; cases y) (simp add: leases_def quiet_view_def fixed_part_def session_ip_def)

lemma no_static_config:
  "no_static (v_cfg w) \<Longrightarrow> (case client_config w s of None \<Rightarrow> None | Some c \<Rightarrow> cc_assign_ip c) = None"
  by (auto simp: no_static_def client_config_def split: option.splits)

lemma push_leases: "keeps (leases addr) (push_request E addr)"
  unfolding keeps_def
proof
  fix st :: "'a VpnServer \<times> 'a Session"
  obtain w s where st: "st = (w, s)" by force
  show "leases addr st (snd (push_request E addr st))"
  proof (cases "lease_ok w")
    case True
    let ?ip = "v_next_pool_ip w"
    have c: "choose_ip (w, s) = try_server allocate_ip (w, s)"
      using no_static_config [of w s] True by (simp add: choose_ip_def with_state_def lease_ok_def)
    show ?thesis
    proof (cases "?ip > v_pool_end w")
      case True
      then have "push_request E addr st = (bail ''client IP pool exhausted'', st)"
        using c by (simp add: push_request_def bindM_def try_server_def allocate_ip_def Let_def st)
      then show ?thesis using reflpD [OF leases_refl] by simp
    next
      case False
      let ?st = "(w\<lparr>v_next_pool_ip := ?ip + 1, v_routes := (v_routes w)(?ip \<mapsto> addr)\<rparr>, s\<lparr>s_assigned_ip := Some (V4 ?ip)\<rparr>)"
      have "choose_ip (w, s) = (Ok ?ip, (w\<lparr>v_next_pool_ip := ?ip + 1\<rparr>, s))"
        using c False by (simp add: try_server_def allocate_ip_def Let_def)
      then have run: "push_request E addr st = push_reply_to E addr ?ip ?st"
        by (simp add: push_request_def bindM_Ok st run_simps)
      have "?ip < ?ip + 1" using True False by (intro less_succ32) (auto simp: lease_ok_def)
      then have "leases addr st ?st"
        by (auto simp: leases_def st fixed_part_def session_ip_def)
      moreover have "leases addr ?st (snd (push_reply_to E addr ?ip ?st))"
        using quiet_push_reply_to [of E addr ?ip] by (intro quiet_leases) (simp add: keeps_def same_def)
      ultimately show ?thesis unfolding run by (rule transpD [OF leases_trans])
    qed
  qed (simp add: leases_def st case_prod_beta)
qed

interpretation leasing: push_relation "leases addr" addr for addr
proof -
  have "key_relation (leases addr)"
    by (rule key_relation_mono [OF quiet.key_relation_axioms leases_refl leases_trans])
      (simp add: same_def quiet_leases)
  then show "push_relation (leases addr) addr"
    by (intro push_relation.intro push_relation_axioms.intro push_leases)
qed

section \<open>The invariant under interleaved evictions\<close>

text \<open>No two session objects hold the same address, in the map or not.\<close>

definition leases_unique :: "'c VpnServer \<Rightarrow> bool" where
  "leases_unique w \<longleftrightarrow>
     (\<forall>r s ip. v_store w r = Some s \<longrightarrow> session_ip s = Some ip \<longrightarrow> ip < v_next_pool_ip w) \<and>
     (\<forall>q r s t ip. v_store w q = Some s \<longrightarrow> v_store w r = Some t \<longrightarrow>
        session_ip s = Some ip \<longrightarrow> session_ip t = Some ip \<longrightarrow> q = r)"

text \<open>An address that an eviction under way will remove is not in use by another client.\<close>

fun pending_ok :: "'c VpnServer \<Rightarrow> 'c pending \<Rightarrow> bool" where
  "pending_ok w (Evicting a s) =
     (\<forall>ip. session_ip s = Some ip \<longrightarrow> ip < v_next_pool_ip w \<and> (\<forall>b. holds session_ip w b = Some ip \<longrightarrow> b = a))"
| "pending_ok w (Closing r) = (r < v_next_ref w \<and> (\<forall>b. v_sessions w b \<noteq> Some r))"

definition fine_inv :: "'c pending set \<Rightarrow> 'c VpnServer \<Rightarrow> bool" where
  "fine_inv P w \<longleftrightarrow> lease_ok w \<and> refs_ok w \<and> store_ok w \<and> leases_unique w \<and> routed w \<and> (\<forall>x \<in> P. pending_ok w x)"

lemma holdsE:
  assumes "holds A w b = Some i"
  obtains r s where "v_sessions w b = Some r" "v_store w r = Some s" "A s = Some i"
  using assms by (auto simp: holds_def bind_eq_Some_conv)

lemma fine_put:
  assumes inv: "fine_inv P w" and a: "v_sessions w a = Some r" and r: "v_store w r = Some s"
    and l: "leases a (w, s) (w', s')"
  shows "fine_inv P (put r (w', s'))"
proof -
  let ?w = "put r (w', s')"
  from inv have i: "lease_ok w" "refs_ok w" "store_ok w" "leases_unique w" "served session_ip (v_routes w) w"
    "\<forall>x \<in> P. pending_ok w x" by (simp_all add: fine_inv_def routed_def)
  from l i(1) have f: "v_sessions w' = v_sessions w" "v_store w' = v_store w" "v_next_ref w' = v_next_ref w"
    "v_cfg w' = v_cfg w" "v_pool_end w' = v_pool_end w" and n: "v_next_pool_ip w \<le> v_next_pool_ip w'"
    and rt: "\<And>ip. ip < v_next_pool_ip w \<Longrightarrow> v_routes w' ip = v_routes w ip"
    and new: "session_ip s' = session_ip s \<or> (\<exists>ip. session_ip s' = Some ip \<and> v_next_pool_ip w \<le> ip \<and>
      ip < v_next_pool_ip w' \<and> v_routes w' ip = Some a)"
    by (simp_all add: leases_def fixed_part_def)
  have below: "ip < v_next_pool_ip w" if "v_store w q = Some t" "session_ip t = Some ip" for q t ip
    using i(4) that by (simp add: leases_unique_def)
  have holder: "b = a \<and> session_ip s' = Some ip \<or> holds session_ip w b = Some ip" if "holds session_ip ?w b = Some ip" for b ip
  proof (cases "v_sessions w b = Some r")
    case True
    then have "b = a" using i(2) a by (simp add: refs_ok_def)
    then show ?thesis using that True by (simp add: holds_def f)
  next
    case False
    then show ?thesis using that by (cases "v_sessions w b") (simp_all add: holds_def f)
  qed
  have old: "ip < v_next_pool_ip w" if "holds session_ip w b = Some ip" for b ip
    using that below by (metis holdsE)
  have origin: "(\<exists>t0. v_store w q = Some t0 \<and> session_ip t0 = Some ip) \<or>
      (q = r \<and> v_next_pool_ip w \<le> ip \<and> ip < v_next_pool_ip w')"
    if "v_store ?w q = Some t" "session_ip t = Some ip" for q t ip
    using that new r by (cases "q = r") (auto simp: f)
  have "leases_unique ?w"
    unfolding leases_unique_def
  proof (intro conjI allI impI)
    show "ip < v_next_pool_ip ?w" if "v_store ?w q = Some t" "session_ip t = Some ip" for q t ip
      using origin [OF that] below order.strict_trans2 [OF _ n] by auto
    show "q = q'" if t: "v_store ?w q = Some t" "v_store ?w q' = Some t'" "session_ip t = Some ip" "session_ip t' = Some ip"
      for q q' t t' ip
      using origin [OF t(1,3)] origin [OF t(2,4)] below i(4) by (auto simp: leases_unique_def dest: leD)
  qed
  moreover have "served session_ip (v_routes w') ?w"
    unfolding served_def
  proof (intro allI impI)
    fix b ip
    assume h: "holds session_ip ?w b = Some ip"
    from holder [OF h] show "v_routes w' ip = Some b"
    proof
      assume "holds session_ip w b = Some ip"
      then show ?thesis using i(5) rt old by (simp add: served_def)
    next
      assume b: "b = a \<and> session_ip s' = Some ip"
      show ?thesis
      proof (cases "session_ip s' = session_ip s")
        case True
        then have "holds session_ip w a = Some ip" using a r b by (simp add: holds_def)
        then show ?thesis using i(5) rt old b by (simp add: served_def)
      next
        case False
        then show ?thesis using new b by auto
      qed
    qed
  qed
  moreover have "pending_ok ?w x" if "x \<in> P" for x
  proof (cases x)
    case (Evicting b t)
    have "c = b" if "session_ip t = Some ip" "holds session_ip ?w c = Some ip" for c ip
    proof -
      have ok: "ip < v_next_pool_ip w" "\<And>c. holds session_ip w c = Some ip \<Longrightarrow> c = b"
        using i(6) \<open>x \<in> P\<close> that(1) Evicting by auto
      show ?thesis
      proof (cases "holds session_ip w c = Some ip")
        case False
        then have c: "c = a" "session_ip s' = Some ip" using holder [OF that(2)] by blast+
        then have "session_ip s = Some ip" using new ok(1) by (auto dest: leD)
        then have "holds session_ip w c = Some ip" using a r c(1) by (simp add: holds_def)
        then show ?thesis by (rule ok(2))
      qed (rule ok(2))
    qed
    then show ?thesis using i(6) that Evicting order.strict_trans2 [OF _ n] by auto
  qed (use i(6) that in \<open>auto simp: f\<close>)
  ultimately show ?thesis
    using i(1-3) r by (auto simp: fine_inv_def lease_ok_def routed_def f refs_ok_def store_ok_def)
qed

lemma removed_routes:
  "v_routes (remove_ids s w) = (case session_ip s of Some i \<Rightarrow> (v_routes w)(i := None) | None \<Rightarrow> v_routes w)"
  by (auto simp: remove_ids_def session_ip_def split: option.split IpAddr.split)

text \<open>Taking entries out of the maps: only routes nobody needs may go.\<close>

lemma fine_remove:
  assumes inv: "fine_inv P w" and le: "v_sessions w' \<subseteq>\<^sub>m v_sessions w"
    and f: "v_store w' = v_store w" "v_next_ref w' = v_next_ref w" "v_cfg w' = v_cfg w" "v_pool_end w' = v_pool_end w"
      "v_next_pool_ip w' = v_next_pool_ip w"
    and rt: "\<And>b ip. holds session_ip w' b = Some ip \<Longrightarrow> v_routes w' ip = v_routes w ip"
  shows "fine_inv P w'"
proof -
  have se: "v_sessions w b = Some r" if "v_sessions w' b = Some r" for b r
    using le that by (metis domI map_le_def)
  then have h: "holds session_ip w b = Some ip" if "holds session_ip w' b = Some ip" for b ip
    using that by (elim holdsE) (simp add: holds_def f)
  have "pending_ok w' x" if "pending_ok w x" for x
  proof (cases x)
    case (Evicting a s)
    then show ?thesis using that h unfolding Evicting pending_ok.simps f by blast
  next
    case (Closing r)
    then show ?thesis using that se unfolding Closing pending_ok.simps f by blast
  qed
  moreover have "served session_ip (v_routes w') w'"
    using inv rt h by (auto simp: fine_inv_def routed_def served_def)
  moreover have "refs_ok w'" using inv se by (fastforce simp: fine_inv_def refs_ok_def f)
  ultimately show ?thesis
    using inv by (auto simp: fine_inv_def lease_ok_def routed_def store_ok_def leases_unique_def f)
qed

lemma fine_evicted:
  assumes "fine_inv P w" "pending_ok w (Evicting a s)"
  shows "fine_inv P (evict a s w)"
proof (rule fine_remove [OF assms(1)])
  fix b ip
  assume h: "holds session_ip (evict a s w) b = Some ip"
  then have "b \<noteq> a" "holds session_ip w b = Some ip"
    by (auto simp: evict_def remove_ids_def holds_def split: if_splits)
  then have "session_ip s \<noteq> Some ip" using assms(2) by auto
  then show "v_routes (evict a s w) ip = v_routes w ip"
    by (auto simp: evict_def removed_routes split: option.split)
qed (auto simp: evict_def remove_ids_def map_le_def)

lemma fine_registered:
  assumes inv: "fine_inv P w" and fr: "fresh_session q tr s" and new: "a \<notin> dom (v_sessions w)"
  shows "fine_inv P (register_session a q s w)"
proof -
  let ?w = "register_session a q s w"
  have v: "v_sessions ?w = (v_sessions w)(a \<mapsto> v_next_ref w)" "v_store ?w = (v_store w)(v_next_ref w \<mapsto> s)"
    "v_next_ref ?w = v_next_ref w + 1" "v_routes ?w = v_routes w" "v_cfg ?w = v_cfg w"
    "v_pool_end ?w = v_pool_end w" "v_next_pool_ip ?w = v_next_pool_ip w"
    by (simp_all add: register_session_def spawn_data_worker_def Let_def)
  have none: "session_ip s = None" using fr by (simp add: fresh_session_def session_ip_def)
  from inv have i: "refs_ok w" "store_ok w" "leases_unique w" "served session_ip (v_routes w) w"
    by (simp_all add: fine_inv_def routed_def)
  have "holds session_ip ?w b = (if b = a then None else holds session_ip w b)" for b
    using i(1) none by (cases "v_sessions w b") (auto simp: holds_def v refs_ok_def)
  then have "pending_ok ?w x" if "pending_ok w x" for x
    using that by (cases x) (auto simp: v split: if_splits)
  moreover have "served session_ip (v_routes w) ?w" by (rule served_insert [OF i(1,4) none v(1,2)])
  moreover have "refs_ok ?w" by (rule refs_ok_insert [OF i(1) v(1-3)])
  moreover have "leases_unique ?w"
    using i(3) none by (auto simp: leases_unique_def v split: if_splits)
  ultimately show ?thesis
    using inv by (auto simp: fine_inv_def lease_ok_def routed_def store_ok_def v)
qed

lemma current_pending:
  assumes "fine_inv P w" "v_sessions w a = Some r" "v_store w r = Some s"
  shows "pending_ok w (Evicting a s)"
proof -
  have "b = a" if "session_ip s = Some ip" "holds session_ip w b = Some ip" for b ip
  proof -
    from that(2) obtain q t where q: "v_sessions w b = Some q" "v_store w q = Some t" "session_ip t = Some ip"
      by (rule holdsE)
    then have "q = r" using assms(1,3) that(1) by (auto simp: fine_inv_def leases_unique_def)
    then show ?thesis using assms(1,2) q(1) by (auto simp: fine_inv_def refs_ok_def)
  qed
  then show ?thesis using assms(1,3) by (auto simp: fine_inv_def leases_unique_def)
qed

interpretation fine: server_invariant "fine_inv P" for P :: "'c pending set"
proof
  fix w :: "'c VpnServer" and a r and s :: "'c Session"
  assume i: "fine_inv P w" and r: "v_store w r = Some s"
  show "fine_inv P (put r (w, snd (open_data E dp aad s)))" for E dp aad
  proof -
    have "holds session_ip (put r (w, snd (open_data E dp aad s))) = holds session_ip w"
      using holds_put_same [of session_ip "snd (open_data E dp aad s)" s w w r] put_id [OF r]
      by (simp add: session_ip_def)
    moreover have "session_ip (snd (open_data E dp aad s)) = session_ip s" by (simp add: session_ip_def)
    ultimately have "pending_ok (put r (w, snd (open_data E dp aad s))) x = pending_ok w x" for x
      by (cases x) simp_all
    then show ?thesis
      using i r \<open>holds _ _ = holds session_ip w\<close> \<open>session_ip _ = session_ip s\<close>
      by (auto simp: fine_inv_def lease_ok_def refs_ok_def store_ok_def leases_unique_def routed_def served_def
          split: if_splits)
  qed
  assume a: "v_sessions w a = Some r"
  show "fine_inv P (put r (snd (handle_session_packet E a ctrl p (w, s))))"
    if "cp_key_id ctrl AND 7 = cp_key_id ctrl" for E ctrl p
    using fine_put [OF i a r, of "fst (snd (handle_session_packet E a ctrl p (w, s)))"
        "snd (snd (handle_session_packet E a ctrl p (w, s)))"] leasing.session_packet [OF that, of a E p]
    by (simp add: keeps_def)
  show "fine_inv P (put r (snd (m (w, s))))" if "task E m" for E m
    using fine_put [OF i a r, of "fst (snd (m (w, s)))" "snd (snd (m (w, s)))"]
      task_keeps [OF that leasing.lock_relation_axioms [of a]] by (simp add: keeps_def)
  show "fine_inv P (remove_ids s (w\<lparr>v_sessions := (v_sessions w)(a := None)\<rparr>))"
    using fine_evicted [OF i current_pending [OF i a r]] by (simp add: evict_def)
next
  fix w :: "'c VpnServer" and a r
  assume "fine_inv P w" "v_sessions w a = Some r" "v_store w r = None"
  then show "fine_inv P (w\<lparr>v_sessions := (v_sessions w)(a := None)\<rparr>)" by (auto simp: fine_inv_def refs_ok_def)
next
  fix w :: "'c VpnServer" and t b n l
  assume i: "fine_inv P w"
  have same: "fine_inv P w'" if "v_sessions w' = v_sessions w" "v_store w' = v_store w" "v_next_ref w' = v_next_ref w"
    "v_cfg w' = v_cfg w" "v_pool_end w' = v_pool_end w" "v_next_pool_ip w' = v_next_pool_ip w" "v_routes w' = v_routes w" for w'
    by (rule fine_remove [OF i]) (simp_all add: that)
  show "fine_inv P (w\<lparr>v_tun := t\<rparr>)" "fine_inv P (w\<lparr>v_inbox := b\<rparr>)" "fine_inv P (w\<lparr>v_next_peer_id := n, v_wire := l\<rparr>)"
    by (rule same; simp)+
qed (rule fine_registered)

text \<open>The further steps of the finer system.\<close>

lemma fine_cleaned:
  assumes "fine_inv P w" "pending_ok w (Closing r)"
  shows "fine_inv P (tcp_cleanup r w)"
proof (cases "v_store w r")
  case (Some s)
  then have c: "tcp_cleanup r w = remove_ids s w" by (simp add: tcp_cleanup_def)
  show ?thesis unfolding c
  proof (rule fine_remove [OF assms(1)])
    fix b ip
    assume "holds session_ip (remove_ids s w) b = Some ip"
    then have "holds session_ip w b = Some ip" by (simp add: holds_def remove_ids_def)
    then obtain q t where q: "v_sessions w b = Some q" "v_store w q = Some t" "session_ip t = Some ip" by (rule holdsE)
    have "session_ip s \<noteq> Some ip"
    proof
      assume "session_ip s = Some ip"
      then have "q = r" using assms(1) Some q(2,3) by (auto simp: fine_inv_def leases_unique_def)
      then show False using assms(2) q(1) by simp
    qed
    then show "v_routes (remove_ids s w) ip = v_routes w ip" by (auto simp: removed_routes split: option.split)
  qed (simp_all add: remove_ids_def)
qed (simp add: tcp_cleanup_def assms(1))

lemma fine_detached:
  assumes "fine_inv P w" "v_sessions w a = Some r"
  shows "fine_inv (insert (Closing r) P) (tcp_detach a w)"
proof -
  have "fine_inv P (tcp_detach a w)"
    by (rule fine_remove [OF assms(1)]) (auto simp: tcp_detach_def map_le_def)
  moreover have "pending_ok (tcp_detach a w) (Closing r)"
    using assms by (auto simp: fine_inv_def refs_ok_def tcp_detach_def)
  ultimately show ?thesis by (simp add: fine_inv_def)
qed

lemma fine_inv_subset: "fine_inv P w \<Longrightarrow> Q \<subseteq> P \<Longrightarrow> fine_inv Q w"
  by (auto simp: fine_inv_def)

lemma fine_inv_reaches: "fine_reaches w0 w P \<Longrightarrow> fine_inv {} w0 \<Longrightarrow> fine_inv P w"
proof (induction rule: fine_reaches.induct)
  case (fine_whole w P E ev)
  then show ?case by (intro fine.event) simp
next
  case (fine_read w P E a s)
  then obtain r where "v_sessions w a = Some r" "v_store w r = Some s"
    by (auto simp: reap_read_def split: option.splits if_splits)
  then show ?case using fine_read current_pending [of P w a r s] by (simp add: fine_inv_def)
next
  case (fine_evict w P a s)
  then have "fine_inv P (evict a s w)" by (intro fine_evicted) (auto simp: fine_inv_def)
  then show ?case by (rule fine_inv_subset) blast
next
  case (fine_detach w P a r)
  then show ?case by (intro fine_detached) simp_all
next
  case (fine_cleanup w P r)
  then have "fine_inv P (tcp_cleanup r w)" by (intro fine_cleaned) (auto simp: fine_inv_def)
  then show ?case by (rule fine_inv_subset) blast
qed simp

text \<open>The runs with atomic evictions are among these.\<close>

lemma coarse_is_fine: "reaches w0 w \<Longrightarrow> fine_reaches w0 w {}"
  by (induction rule: reaches.induct) (auto intro: fine_reaches.intros)

lemma started_fine:
  assumes "started os K H cfg h = (Inr w, h')" "pool_config_ok cfg" "no_static cfg"
  shows "fine_inv {} w"
proof -
  from assms(1) obtain keys lo hi pool6 where w: "w = (initial_server cfg keys lo hi pool6)\<lparr>v_tun_writer_ready := True\<rparr>"
    "cfg_client_pool_start cfg = V4 lo" "cfg_client_pool_end cfg = V4 hi" by (rule started_state)
  then have "hi < - 1" using assms(2) by (simp add: pool_config_ok_def)
  then show ?thesis
    using assms(3) by (simp add: w(1) fine_inv_def lease_ok_def refs_ok_def store_ok_def leases_unique_def routed_def
        served_def holds_def initial_server_def)
qed

text \<open>C4: evictions need not be atomic. When the configuration has no static addresses, then in every state
  the server can reach with other steps between the two halves of an eviction (the reaper's look at
  a session and its removal; the end of a TCP stream taking its session out of the map and removing
  the rest), each assigned address is routed to the client that holds it and no two clients hold the
  same address.\<close>

theorem interleaved_eviction_safe:
  assumes "started os K H cfg h = (Inr w0, h')" and "pool_config_ok cfg" and "no_static cfg"
    and "fine_reaches w0 w P"
  shows "(assigned w a = Some ip \<longrightarrow> v_routes w ip = Some a) \<and>
         (assigned w a = Some ip \<longrightarrow> assigned w b = Some ip \<longrightarrow> a = b)"
proof -
  have "fine_inv P w" using fine_inv_reaches [OF assms(4) started_fine [OF assms(1-3)]] .
  then show ?thesis by (intro served_exclusive) (simp add: fine_inv_def routed_def)
qed

lemma example_no_static: "no_static example_config"
  by (simp add: no_static_def example_config_def)

theorem interleaved_eviction_safe_witness:
  "\<exists>E s. reap_read E example_addr example_connected = Some s \<and>
     fine_reaches example_start example_connected {Evicting example_addr s} \<and>
     assigned example_connected example_addr = Some 0x0A080002 \<and>
     v_routes example_connected 0x0A080002 = Some example_addr"
proof -
  obtain s where s: "v_sessions example_connected example_addr = Some 0" "v_store example_connected 0 = Some s"
    "s_assigned_ip s = Some (V4 0x0A080002)"
    by (rule example_connected_session)
  let ?E = "example_env\<lparr>env_now := s_last_seen s + from_secs (unat (cfg_keepalive_timeout (v_cfg example_connected)))\<rparr>"
  have r: "reap_read ?E example_addr example_connected = Some s"
    using s by (simp add: reap_read_def duration_since_def)
  have f: "fine_reaches example_start example_connected {Evicting example_addr s}"
    by (rule fine_reaches.fine_read [OF coarse_is_fine [OF example_reaches] r])
  have "assigned example_connected example_addr = Some 0x0A080002" using s by (simp add: holds_def session_ip_def)
  with r f show ?thesis
    using interleaved_eviction_safe [OF example_started [of "({#}, Map.empty)"] example_pool_ok example_no_static f]
    by blast
qed

end
