(* ===== verification/Spec2Isabelle.thy ===== *)
theory Spec2Isabelle
  imports Replay Protocol Rust_Str Streaming Control_Channel Static_Key Tls_Auth Tls_Crypt Prf Crypto
    Tls Net Session_Props Failures Retransmission Eviction
begin

text \<open>
  \<^bold>\<open>A verification development for javs\<close>, an OpenVPN-compatible VPN server written in Rust (sources
  under \<open>src/src/\<close>).

  \<^bold>\<open>The program.\<close> A UDP or TCP packet is dispatched by its opcode. Control packets first pass the
  envelope (\<open>tls_crypt.rs\<close> or \<open>tls_auth.rs\<close>, keys from \<open>static_key.rs\<close>), are parsed (\<open>protocol.rs\<close>)
  and handled by \<open>server.rs\<close> on the peer's session (\<open>session.rs\<close>): a HARD_RESET creates it, P_CONTROL_V1
  feeds its TLS connection (\<open>tls.rs\<close>), and the plaintext that comes out (\<open>control_channel.rs\<close>) carries
  the key-method-2 exchange, from which \<open>prf.rs\<close> derives the data keys (\<open>crypto.rs\<close>), and the
  \<open>PUSH_REQUEST\<close>, which assigns a tunnel address. Data packets go to a worker per session, which decrypts
  them, checks the replay window (\<open>replay.rs\<close>) and hands them to the TUN writer; packets from the TUN
  device are routed by destination address to a session and encrypted. Periodic tasks evict idle
  sessions, rekey, send pings and retransmit. \<open>nat.rs\<close> sets up iptables, \<open>config.rs\<close> is the configuration,
  \<open>transport.rs\<close> the outbound side of UDP and TCP.

  \<^bold>\<open>Theories.\<close>
  \<^item> \<^verbatim>\<open>Prelude\<close>: types, results (\<open>error + 'a\<close>; a panic and a loop that does not end are values), slices,
    chunks, big-endian integers. \<^verbatim>\<open>Rust_Str\<close>: UTF-8, lines, trimming, hexadecimal, number formatting.
    \<^verbatim>\<open>Exec\<close>: fallible programs over a state, and \<open>keeps R m\<close> (every run of \<open>m\<close>, failed ones included, relates the
    states by \<open>R\<close>), by which invariants are proved compositionally. \<^verbatim>\<open>Crates\<close>: the cryptographic crates as a
    record of parameters. \<^verbatim>\<open>Counter\<close>: the interface \<open>id_source\<close> of wrapping counters.
  \<^item> \<^verbatim>\<open>Replay\<close> (\<open>replay.rs\<close>): the bitmap window and, by the interface \<open>replay_filter\<close>, its refinement of a
    specification that remembers every accepted id.
  \<^item> \<^verbatim>\<open>Protocol\<close> (\<open>protocol.rs\<close>): parser and encoder are inverse on well-formed packets.
  \<^item> \<^verbatim>\<open>Streaming\<close>, \<^verbatim>\<open>Control_Channel\<close> (\<open>control_channel.rs\<close>): the interface \<open>stream_codec\<close> of incremental
    parsers; messages survive any fragmentation.
  \<^item> \<^verbatim>\<open>Static_Key\<close>, \<^verbatim>\<open>Tls_Auth\<close>, \<^verbatim>\<open>Tls_Crypt\<close>: key files and the two envelopes, both instances of
    \<open>control_envelope\<close>: accepted are exactly the packets the key holder can produce.
  \<^item> \<^verbatim>\<open>Prf\<close>, \<^verbatim>\<open>Crypto\<close>: the key derivation equals the RFC 4346 PRF construction and always returns; the data
    cipher. \<^verbatim>\<open>Tls\<close>: the wrapper around a rustls connection. \<^verbatim>\<open>Net\<close>: addresses, their text form, time.
  \<^item> \<^verbatim>\<open>Session\<close>, \<^verbatim>\<open>Session_Props\<close> (\<open>session.rs\<close>): every operation of \<open>Session\<close>; retransmission, key slots,
    packet ids.
  \<^item> \<^verbatim>\<open>Config\<close>, \<^verbatim>\<open>Push_Reply\<close>, \<^verbatim>\<open>Masquerade\<close> (\<open>config.rs\<close>, \<open>build_push_reply\<close> of \<open>server.rs\<close>, \<open>nat.rs\<close>).
  \<^item> \<^verbatim>\<open>Server\<close>, \<^verbatim>\<open>Server_Run\<close> (\<open>server.rs\<close>): state, control-packet handler, control plane and rekeying; data
    path, TCP framing, periodic tasks, and the transition system \<open>reaches\<close> over all of these steps.
    \<^verbatim>\<open>Lock_Frame\<close> has the interfaces the invariants are proved through: \<open>lock_relation\<close>, \<open>key_relation\<close> and
    \<open>push_relation\<close> (what a relation on the locked state must satisfy to be kept by every handler), and
    \<open>task_invariant\<close> and \<open>server_invariant\<close> (what a predicate on the server must satisfy to hold of every
    reachable state). Their instances: \<^verbatim>\<open>Server_Inv\<close> (\<open>addr_inv\<close>: references, IPv4 routes, pool),
    \<^verbatim>\<open>Addresses6\<close> (the same for IPv6), \<^verbatim>\<open>Server_Sess\<close> (\<open>all_sess_ok\<close>: sessions are well formed) and
    \<^verbatim>\<open>Session_Runs\<close> (\<open>session_relation\<close>, \<open>session_invariant\<close>: what a session keeps over a whole run, such as
    its identity, the ranges of its ids and the meaning of its replay windows).
  \<^item> \<^verbatim>\<open>Startup\<close> (\<open>VpnServer::new\<close>, the set-up of \<open>run\<close>, \<open>main\<close>, the loaders of \<open>tls.rs\<close>, \<open>tun_dev.rs\<close>): a
    started server satisfies the invariants. \<^verbatim>\<open>Connection\<close>: a client becomes established, and a concrete run
    of it. \<^verbatim>\<open>Rekeying\<close>: a rekey completes. \<^verbatim>\<open>Server_Props\<close>, \<^verbatim>\<open>Server_Tasks\<close>: addresses, sessions, data
    packets in both directions, forgeries, the reaper, the pool. \<^verbatim>\<open>Delivery\<close>: over whole runs no data packet
    is delivered twice. \<^verbatim>\<open>Retransmission\<close>: the client can open what is sent again. \<^verbatim>\<open>Failures\<close>: an
    unanswered rekey blocks later ones, and a push reply that fails leaks its address.
  \<^item> \<^verbatim>\<open>Server_Loops\<close> (\<open>run\<close>, \<open>run_tcp_stream\<close>): the loops themselves, as functions of what they read; they stay
    within the reachable states, and a TCP stream is dispatched packet by packet. \<^verbatim>\<open>Eviction\<close>: the two halves of
    an eviction with other steps between them.

  \<^bold>\<open>State.\<close> \<open>VpnServer\<close> has the fields of the Rust struct; \<open>Arc<Mutex<Session>>\<close> is a reference into the store
  \<open>v_store\<close>, so the sessions map and a data worker share one object and an evicted session lives on
  in its worker. Sends are logged in \<open>v_wire\<close> with their outcome; \<open>v_inbox\<close> and \<open>v_tun\<close> are the channels to
  the workers and to the TUN writer. What a step reads from outside is its \<open>env\<close>, arbitrary in every step:
  the crates, one reading of the clock, random octets, the outcome of a new TLS connection and of
  the sends. The crates obey no law except where a property names one (\<open>aead_law\<close>, \<open>reader_law\<close>,
  \<open>writes_ok\<close>, \<open>iptables_law\<close>, \<open>file_law\<close>).

  \<^bold>\<open>Steps and ordering.\<close> A handler that holds a session lock is one step, and so is one iteration of a
  periodic task over one session; any interleaving of steps is a run of \<open>reaches\<close>. Within a step the
  code sends to other tasks only through channels, so the order of these effects is kept. The reaper
  and the end of a TCP stream read or take out the session and change the maps afterwards, without the
  lock. In \<open>reaches\<close> each is one step; \<open>fine_reaches\<close> of \<^verbatim>\<open>Eviction\<close> splits both, lets any steps and any
  number of other evictions come between the halves, and the addresses stay exclusive (without static
  addresses, which can be assigned again in between).

  \<^bold>\<open>Termination and bounds.\<close> No model uses fuel. Loops are structural or have a measure (the control plane
  pops at least one octet of plaintext per iteration; the TCP reader consumes its stream); the loops of
  \<open>p_hash\<close> and of \<open>TlsSession::feed\<close> are partial functions, proved to return (the latter under \<open>reader_law\<close>).
  Integers have the widths of the source: packet ids, peer ids and pool addresses wrap where the Rust code
  wraps, and properties that need a bound state it.

  \<^bold>\<open>Not modelled.\<close> The tokio runtime, sockets and timers (the next event is arbitrary); log output and
  error context (\<open>.context(..)\<close> only decorates an error); \<open>clap\<close>, \<open>tracing\<close>, \<open>tun::create_as_async\<close> and the TOML
  decoder behind \<open>ServerConfig::load\<close>, which are parameters of the definitions that call them; the accept
  loop of the TCP listener, which only starts \<open>run_tcp_stream\<close> for each connection; the stubs for targets other than Linux; unit tests, scripts and container files. A
  wire-level adversary appears as arbitrary received bytes; no computational claim is made about the
  cryptography.
\<close>

end
